theory Spec2Isabelle
  imports Main "HOL-Library.AList"
begin

section \<open>JavaScript strings and regular expressions\<close>

text \<open>
  A JavaScript string is a sequence of UTF-16 code units. It is modelled as a
  \<^typ>\<open>string\<close> whose characters are the code units below 256; every code unit the
  regular expressions of \<^verbatim>\<open>elasticsearch_query.js\<close> single out is ASCII.
\<close>

subsection \<open>Regular expressions\<close>

text \<open>
  The fragment of the regular-expression syntax the source uses: the assertions
  \<^verbatim>\<open>^\<close> and \<^verbatim>\<open>$\<close> (no multiline flag), literal text, character classes with single
  characters, ranges and \<^verbatim>\<open>\w\<close>, the greedy quantifiers \<^verbatim>\<open>?\<close> and \<^verbatim>\<open>+\<close>, sequencing
  and one capturing group.
\<close>

datatype class_item = Single char | Range char char | WordChar

datatype regex =
    Bol
  | Eol
  | Lit string
  | Class "class_item list"
  | Opt regex
  | Plus regex
  | Seq regex regex
  | Group regex

definition is_digit :: "char \<Rightarrow> bool" where
  "is_digit c = ((of_char (CHR ''0'') :: nat) \<le> of_char c \<and> (of_char c :: nat) \<le> of_char (CHR ''9''))"

definition is_lower :: "char \<Rightarrow> bool" where
  "is_lower c = ((of_char (CHR ''a'') :: nat) \<le> of_char c \<and> (of_char c :: nat) \<le> of_char (CHR ''z''))"

definition is_upper :: "char \<Rightarrow> bool" where
  "is_upper c = ((of_char (CHR ''A'') :: nat) \<le> of_char c \<and> (of_char c :: nat) \<le> of_char (CHR ''Z''))"

fun in_item :: "class_item \<Rightarrow> char \<Rightarrow> bool" where
  "in_item (Single a) c = (c = a)"
| "in_item (Range a b) c = ((of_char a :: nat) \<le> of_char c \<and> (of_char c :: nat) \<le> of_char b)"
| "in_item WordChar c = (is_lower c \<or> is_upper c \<or> is_digit c \<or> c = CHR ''_'')"

definition in_class :: "class_item list \<Rightarrow> char \<Rightarrow> bool" where
  "in_class items c = list_ex (\<lambda>i. in_item i c) items"

text \<open>
  A matcher state is the input before the current position, the input from the
  current position on, and the text captured by the group so far. The matcher returns
  the states a backtracking engine would try, in its order of preference; the first
  one is the match JavaScript reports.
\<close>

type_synonym mstate = "string \<times> string \<times> string option"

definition is_prefix :: "string \<Rightarrow> string \<Rightarrow> bool" where
  "is_prefix p s = (take (length p) s = p)"

text \<open>
  Greedy iteration of a sub-pattern: one more round is preferred to stopping, and a
  round that consumes nothing is not repeated. Every round consumes a character, so
  a bound of one more than the remaining input never cuts an iteration short.
\<close>

fun plus_iter :: "(mstate \<Rightarrow> mstate list) \<Rightarrow> nat \<Rightarrow> mstate \<Rightarrow> mstate list" where
  "plus_iter f 0 st = []"
| "plus_iter f (Suc n) st =
     concat (map (\<lambda>st'.
        (if length (fst (snd st')) < length (fst (snd st)) then plus_iter f n st' else []) @ [st'])
      (f st))"

primrec rmatch :: "regex \<Rightarrow> mstate \<Rightarrow> mstate list" where
  "rmatch Bol st = (if fst st = [] then [st] else [])"
| "rmatch Eol st = (if fst (snd st) = [] then [st] else [])"
| "rmatch (Lit l) st =
     (if is_prefix l (fst (snd st))
      then [(fst st @ l, drop (length l) (fst (snd st)), snd (snd st))] else [])"
| "rmatch (Class items) st =
     (case fst (snd st) of
        [] \<Rightarrow> []
      | c # cs \<Rightarrow> if in_class items c then [(fst st @ [c], cs, snd (snd st))] else [])"
| "rmatch (Opt r) st = rmatch r st @ [st]"
| "rmatch (Plus r) st = plus_iter (rmatch r) (Suc (length (fst (snd st)))) st"
| "rmatch (Seq r1 r2) st = concat (map (rmatch r2) (rmatch r1 st))"
| "rmatch (Group r) st =
     map (\<lambda>st'. (fst st', fst (snd st'), Some (drop (length (fst st)) (fst st')))) (rmatch r st)"

text \<open>\<^verbatim>\<open>RegExp.prototype.exec\<close> without the global flag: the first start position, from
  the left, at which the pattern matches.\<close>

fun exec_from :: "regex \<Rightarrow> string \<Rightarrow> string \<Rightarrow> mstate option" where
  "exec_from r pre [] = (case rmatch r (pre, [], None) of m # _ \<Rightarrow> Some m | [] \<Rightarrow> None)"
| "exec_from r pre (c # cs) =
     (case rmatch r (pre, c # cs, None) of
        m # _ \<Rightarrow> Some m
      | [] \<Rightarrow> exec_from r (pre @ [c]) cs)"

definition test :: "regex \<Rightarrow> string \<Rightarrow> bool" where
  "test r s = (exec_from r [] s \<noteq> None)"

text \<open>
  \<^verbatim>\<open>String.prototype.replace\<close> with a pattern that has the global flag: the input is
  scanned from the left, every match is replaced by the expanded template and the
  scan resumes behind the match (one character further when the match is empty);
  unmatched characters are copied. The template is a sequence of literal text and
  references \<^verbatim>\<open>$1\<close> to the group.
\<close>

datatype template_item = Text string | Capture1

fun expand_item :: "mstate \<Rightarrow> template_item \<Rightarrow> string" where
  "expand_item m (Text t) = t"
| "expand_item m Capture1 = (case snd (snd m) of None \<Rightarrow> [] | Some c \<Rightarrow> c)"

definition expand :: "template_item list \<Rightarrow> mstate \<Rightarrow> string" where
  "expand tmpl m = concat (map (expand_item m) tmpl)"

function replace_all :: "regex \<Rightarrow> template_item list \<Rightarrow> string \<Rightarrow> string \<Rightarrow> string" where
  "replace_all r tmpl pre rest =
     (case rmatch r (pre, rest, None) of
        m # _ \<Rightarrow>
          expand tmpl m @
          (if length (fst (snd m)) < length rest
           then replace_all r tmpl (fst m) (fst (snd m))
           else (case rest of [] \<Rightarrow> [] | c # cs \<Rightarrow> c # replace_all r tmpl (pre @ [c]) cs))
      | [] \<Rightarrow> (case rest of [] \<Rightarrow> [] | c # cs \<Rightarrow> c # replace_all r tmpl (pre @ [c]) cs))"
  by pat_completeness auto
termination
  by (relation "measure (\<lambda>(r, tmpl, pre, rest). length rest)") auto

declare replace_all.simps [simp del]

subsection \<open>String methods\<close>

text \<open>\<^verbatim>\<open>String.prototype.trim\<close>: the white space and line terminators among the code
  units below 256.\<close>

definition is_space :: "char \<Rightarrow> bool" where
  "is_space c = (c \<in> set [CHR 0x09, CHR 0x0A, CHR 0x0B, CHR 0x0C, CHR 0x0D, CHR 0x20, CHR 0xA0])"

definition trim :: "string \<Rightarrow> string" where
  "trim s = rev (dropWhile is_space (rev (dropWhile is_space s)))"

text \<open>\<^verbatim>\<open>s.split(sep)\<close> for a separator of one character; the result is never empty.\<close>

fun split_str :: "char \<Rightarrow> string \<Rightarrow> string list" where
  "split_str sep [] = [[]]"
| "split_str sep (c # cs) =
     (if c = sep then [] # split_str sep cs
      else (case split_str sep cs of [] \<Rightarrow> [[c]] | x # xs \<Rightarrow> (c # x) # xs))"

fun indexOf_from :: "nat \<Rightarrow> string \<Rightarrow> string \<Rightarrow> int" where
  "indexOf_from i [] sub = (if sub = [] then int i else - 1)"
| "indexOf_from i (c # cs) sub =
     (if is_prefix sub (c # cs) then int i else indexOf_from (Suc i) cs sub)"

definition indexOf :: "string \<Rightarrow> string \<Rightarrow> int" where
  "indexOf s sub = indexOf_from 0 s sub"

definition endsWith :: "string \<Rightarrow> string \<Rightarrow> bool" where
  "endsWith s suffix = (length suffix \<le> length s \<and> drop (length s - length suffix) s = suffix)"

text \<open>The truth value of an optional string: \<^verbatim>\<open>undefined\<close> and the empty string are
  falsy. A request parameter is given, or present, when it is truthy.\<close>

fun truthy :: "string option \<Rightarrow> bool" where
  "truthy None = False"
| "truthy (Some s) = (s \<noteq> [])"

definition string_of :: "string option \<Rightarrow> string" where
  "string_of p = (case p of None \<Rightarrow> [] | Some s \<Rightarrow> s)"

text \<open>The \<^verbatim>\<open>escape-html\<close> package, which the source imports as \<^verbatim>\<open>escape\<close>.\<close>

fun escape_char :: "char \<Rightarrow> string" where
  \<open>escape_char c =
     (if c = CHR ''"'' then ''&quot;''
      else if c = CHR ''&'' then ''&amp;''
      else if c = CHR 0x27 then ''&#39;''
      else if c = CHR ''<'' then ''&lt;''
      else if c = CHR ''>'' then ''&gt;''
      else [c])\<close>

definition escape :: "string \<Rightarrow> string" where
  "escape s = concat (map escape_char s)"

section \<open>The query-string validator\<close>

text \<open>
  \<^verbatim>\<open>SUPPORTED_QUERY_RE\<close>, after the string literal's own escapes are resolved, is
  \<^verbatim>\<open>^[&0-9a-zA-Z@%/',._:()"\[\]{}\-\+><= ]+$\<close>.
\<close>

definition SUPPORTED_QUERY_CLASS :: "class_item list" where
  \<open>SUPPORTED_QUERY_CLASS =
    [Single CHR ''&'', Range CHR ''0'' CHR ''9'', Range CHR ''a'' CHR ''z'',
     Range CHR ''A'' CHR ''Z'', Single CHR ''@'', Single CHR ''%'', Single CHR ''/'',
     Single (CHR 0x27), Single CHR '','', Single CHR ''.'', Single CHR ''_'',
     Single CHR '':'', Single CHR ''('', Single CHR '')'', Single CHR ''"'',
     Single CHR ''['', Single CHR '']'', Single CHR ''{'', Single CHR ''}'',
     Single CHR ''-'', Single CHR ''+'', Single CHR ''>'', Single CHR ''<'',
     Single CHR ''='', Single CHR '' '']\<close>

definition SUPPORTED_QUERY_RE :: regex where
  "SUPPORTED_QUERY_RE = Seq Bol (Seq (Plus (Class SUPPORTED_QUERY_CLASS)) Eol)"

definition SupportedQueryString :: "string \<Rightarrow> bool" where
  "SupportedQueryString query = test SUPPORTED_QUERY_RE query"


section \<open>The deprecated-clause rewriter\<close>

text \<open>The pattern \<^verbatim>\<open>/_missing_:("?[\w.]+"?)/g\<close> and the replacement
  \<^verbatim>\<open>"(NOT (_exists_:$1))"\<close>.\<close>

definition MISSING_RE :: regex where
  \<open>MISSING_RE =
     Seq (Lit ''_missing_:'')
       (Group (Seq (Opt (Lit ''"''))
                (Seq (Plus (Class [WordChar, Single CHR ''.''])) (Opt (Lit ''"'')))))\<close>

definition MISSING_REPLACEMENT :: "template_item list" where
  "MISSING_REPLACEMENT = [Text ''(NOT (_exists_:'', Capture1, Text ''))'']"

definition HandleDeprecatedClauses :: "string \<Rightarrow> string" where
  "HandleDeprecatedClauses search = replace_all MISSING_RE MISSING_REPLACEMENT [] search"

section \<open>Request parameters, errors and constants\<close>

text \<open>
  The \<^verbatim>\<open>params\<close> object with the five options the builder reads. \<^verbatim>\<open>limit\<close> arrives
  as a number or as a string; a number is modelled by its integer value.
\<close>

datatype limit_value = LimitNumber int | LimitString string

record params =
  params_search :: "string option"
  params_count :: "string option"
  params_sort :: "string option"
  params_limit :: "limit_value option"
  params_search_after :: "string option"

text \<open>A thrown object \<^verbatim>\<open>{name: ..., message: ...}\<close>.\<close>

datatype thrown = Thrown (name: string) (message: string)

definition ELASTICSEARCH_QUERY_ERROR :: string where
  "ELASTICSEARCH_QUERY_ERROR = ''ElasticsearchQueryError''"

definition DATE_FIELDS :: "string list" where
  "DATE_FIELDS =
    [''drugstartdate'', ''drugenddate'', ''patient.patientdeath.patientdeathdate'',
     ''patientdeathdate'', ''receiptdate'', ''receivedate'', ''transmissiondate'',
     ''report_date'', ''recall_initiation_date'', ''center_classification_date'',
     ''termination_date'', ''effective_time'', ''date_facility_aware'',
     ''date_manufacturer_received'', ''date_of_event'', ''date_received'',
     ''date_added'', ''date_changed'', ''date_report'', ''date_report_to_fda'',
     ''date_report_to_manufacturer'', ''date_returned_to_manufacturer'',
     ''device_date_of_manufacture'', ''baseline_date_ceased_marketing'',
     ''baseline_date_first_marketed'', ''expiration_date_of_device'',
     ''device_date_of_manufacturer'', ''products.created_date'',
     ''event_date_terminated'', ''event_date_initiated'', ''event_date_created'',
     ''event_date_posted'', ''decision_date'', ''fed_reg_notice_date'',
     ''package_discontinue_date'', ''publish_date'', ''public_version_date'',
     ''commercial_distribution_end_date'', ''identifiers.package_discontinue_date'',
     ''package_discontinue_date'', ''original_receive_date'', ''onset_date'',
     ''first_exposure_date'', ''last_exposure_date'', ''manufacturing_date'',
     ''lot_expiration'', ''drug.first_exposure_date'', ''drug.last_exposure_date'',
     ''drug.manufacturing_date'', ''drug.lot_expiration'', ''date_created'',
     ''date_started'', ''marketing_start_date'', ''marketing_end_date'',
     ''inactivation_date'', ''reactivation_date'', ''marketing_start_date'',
     ''marketing_end_date'', ''listing_expiration_date'',
     ''submissions.submission_status_date'', ''submissions.application_docs.date'',
     ''date_performed'', ''date_submitted'']"

definition SORTABLE_FIELD_TYPES :: "string list" where
  "SORTABLE_FIELD_TYPES = [''keyword'', ''short'', ''integer'', ''byte'', ''date'']"

section \<open>The field-sortability cache\<close>

text \<open>
  The process-wide state of the module: the \<^verbatim>\<open>NodeCache\<close> instance
  \<^verbatim>\<open>fieldMappingCache\<close> (created with the default options, so entries never expire) as
  a map from keys to the cached booleans, and, as a record of what the module asked
  of the search engine, the list of the \<^verbatim>\<open>getFieldMapping\<close> calls issued so far
  (index and field of each).
\<close>

record world =
  fieldMappingCache :: "string \<rightharpoonup> bool"
  lookups :: "(string \<times> string) list"

text \<open>
  The external collaborator. A call of \<^verbatim>\<open>client.indices.getFieldMapping\<close> followed by
  \<^verbatim>\<open>jsonpath.query(..., '$..mapping.*')\<close> either throws (the request fails, or the
  response is not an object the path query accepts) or yields the list of values found
  under the \<^verbatim>\<open>mapping\<close> keys of the response. Of such a value the source reads the
  property \<^verbatim>\<open>type\<close>: reading it from \<^verbatim>\<open>null\<close> throws, and otherwise it is a string or
  it is missing.
\<close>

datatype mapping_value = JNull | JObject "string option"

datatype lookup_result = LookupThrows | Mappings "mapping_value list"

type_synonym mapping_client = "string \<Rightarrow> string \<Rightarrow> lookup_result"

definition flushAll :: "world \<Rightarrow> world" where
  "flushAll w = w\<lparr>fieldMappingCache := Map.empty\<rparr>"

definition isFieldTypeAcceptableForSorting ::
    "mapping_client \<Rightarrow> string \<Rightarrow> string \<Rightarrow> world \<Rightarrow> bool \<times> world" where
  "isFieldTypeAcceptableForSorting client field index w =
     (let w1 = w\<lparr>lookups := lookups w @ [(index, field)]\<rparr> in
      case client index field of
        LookupThrows \<Rightarrow> (False, flushAll w1)
      | Mappings mappings \<Rightarrow>
          (case mappings of
             [] \<Rightarrow> (False, w1)
           | m # _ \<Rightarrow>
               (case m of
                  JNull \<Rightarrow> (False, flushAll w1)
                | JObject fieldType \<Rightarrow>
                    (if truthy fieldType \<and> string_of fieldType \<in> set SORTABLE_FIELD_TYPES
                     then (True, w1) else (False, w1)))))"

definition isSortableField ::
    "mapping_client \<Rightarrow> string \<Rightarrow> string option \<Rightarrow> world \<Rightarrow> bool \<times> world" where
  "isSortableField client field index w =
     (case index of
        None \<Rightarrow> (False, w)
      | Some idx \<Rightarrow>
          if idx \<noteq> [] \<and> field \<noteq> [] then
            (let cacheKey = idx @ ''.'' @ field;
                 w' = (if fieldMappingCache w cacheKey = None
                       then (let (b, w1) = isFieldTypeAcceptableForSorting client field idx w
                             in w1\<lparr>fieldMappingCache := (fieldMappingCache w1)(cacheKey \<mapsto> b)\<rparr>)
                       else w)
             in (case fieldMappingCache w' cacheKey of None \<Rightarrow> False | Some b \<Rightarrow> b, w'))
          else (False, w))"

section \<open>The sort builder\<close>

text \<open>\<^verbatim>\<open>params.sort.split(':')[0]\<close>.\<close>

definition sort_field :: "string \<Rightarrow> string" where
  "sort_field s = (case split_str CHR '':'' s of [] \<Rightarrow> [] | f # _ \<Rightarrow> f)"

text \<open>
  \<^verbatim>\<open>BuildSort\<close> returns, next to its result or the object it throws, the \<^verbatim>\<open>params\<close>
  object and the module state as the call leaves them. The three conjuncts of the
  sortability test are evaluated from the left, and the later ones only when the
  earlier ones hold.
\<close>

definition BuildSort ::
    "mapping_client \<Rightarrow> params \<Rightarrow> string option \<Rightarrow> world \<Rightarrow> (thrown + string) \<times> params \<times> world" where
  "BuildSort client params index w =
     (if truthy (params_sort params) then
        (let s = trim (string_of (params_sort params));
             params' = params\<lparr>params_sort := Some s\<rparr>
         in if \<not> SupportedQueryString s
            then (Inl (Thrown ELASTICSEARCH_QUERY_ERROR (''Sort not supported: '' @ escape s)),
                  params', w)
            else if indexOf s ''exact'' = - 1
                    \<and> \<not> truthy (find (\<lambda>f. endsWith (sort_field s) f) DATE_FIELDS)
            then (let (sortable, w') = isSortableField client (sort_field s) index w
                  in if \<not> sortable
                     then (Inl (Thrown ELASTICSEARCH_QUERY_ERROR
                                 (''Sorting allowed by non-analyzed fields only: ''
                                    @ escape (sort_field s))),
                           params', w')
                     else (Inr (if s \<noteq> [] then s @ '',_id'' else ''_id''), params', w'))
            else (Inr (if s \<noteq> [] then s @ '',_id'' else ''_id''), params', w))
      else (Inr ''_id'', params, w))"

section \<open>The query builder\<close>

subsection \<open>\<^verbatim>\<open>parseInt\<close>\<close>

text \<open>
  \<^verbatim>\<open>parseInt\<close> with no radix: leading white space is skipped, a sign is read, the
  prefix \<^verbatim>\<open>0x\<close> selects base 16, and the longest run of digits is the value; with no
  digit the result is \<^verbatim>\<open>NaN\<close>, here \<^term>\<open>None\<close>. A number is first printed, which
  for an integer gives its decimal digits back. Numbers are exact integers here; the
  doubles of JavaScript agree with them up to \<open>2\<^sup>5\<^sup>3\<close>, and the statements about
  sums of numbers are made within that range.
\<close>

definition is_hex :: "char \<Rightarrow> bool" where
  "is_hex c = (is_digit c
     \<or> ((of_char (CHR ''a'') :: nat) \<le> of_char c \<and> (of_char c :: nat) \<le> of_char (CHR ''f''))
     \<or> ((of_char (CHR ''A'') :: nat) \<le> of_char c \<and> (of_char c :: nat) \<le> of_char (CHR ''F'')))"

definition digit_value :: "char \<Rightarrow> nat" where
  "digit_value c =
     (if is_digit c then of_char c - of_char (CHR ''0'')
      else if is_lower c then of_char c - of_char (CHR ''a'') + 10
      else of_char c - of_char (CHR ''A'') + 10)"

definition parse_digits :: "(char \<Rightarrow> bool) \<Rightarrow> nat \<Rightarrow> string \<Rightarrow> nat option" where
  "parse_digits is_dig radix s =
     (let ds = takeWhile is_dig s
      in if ds = [] then None else Some (foldl (\<lambda>a c. a * radix + digit_value c) 0 ds))"

definition parseInt_string :: "string \<Rightarrow> int option" where
  "parseInt_string s =
     (let t = dropWhile is_space s;
          negative = is_prefix ''-'' t;
          u = (if is_prefix ''-'' t \<or> is_prefix ''+'' t then drop 1 t else t);
          magnitude = (if is_prefix ''0x'' u \<or> is_prefix ''0X'' u
                       then parse_digits is_hex 16 (drop 2 u)
                       else parse_digits is_digit 10 u)
      in map_option (\<lambda>n. if negative then - int n else int n) magnitude)"

fun parseInt :: "limit_value option \<Rightarrow> int option" where
  "parseInt None = None"
| "parseInt (Some (LimitNumber n)) = Some n"
| "parseInt (Some (LimitString s)) = parseInt_string s"

subsection \<open>The request body of \<^verbatim>\<open>elastic.js\<close>\<close>

text \<open>
  \<^verbatim>\<open>ejs.Request()\<close> starts from an empty body; \<^verbatim>\<open>query\<close> sets its query clause and
  \<^verbatim>\<open>agg\<close> enters an aggregation under its name. \<^verbatim>\<open>toJSON\<close> returns the body, to which
  \<^verbatim>\<open>AddSearchAfter\<close> adds the cursor. The date histogram carries its field, interval,
  order (key and direction), format and minimal document count, the terms aggregation
  its field and size (\<^term>\<open>None\<close> for \<^verbatim>\<open>NaN\<close>).
\<close>

datatype query_clause = MatchAllQuery | QueryStringQuery string

datatype aggregation =
    DateHistogramAggregation string string "string \<times> string" string int
  | TermsAggregation string "int option"

record 'v request =
  query :: "query_clause option"
  aggs :: "(string \<times> aggregation) list"
  search_after :: "'v list option"

definition Request :: "'v request" where
  "Request = \<lparr>query = None, aggs = [], search_after = None\<rparr>"

definition set_query :: "query_clause \<Rightarrow> 'v request \<Rightarrow> 'v request" where
  "set_query c q = q\<lparr>query := Some c\<rparr>"

definition agg :: "string \<Rightarrow> aggregation \<Rightarrow> 'v request \<Rightarrow> 'v request" where
  "agg agg_name a q = q\<lparr>aggs := AList.update agg_name a (aggs q)\<rparr>"

text \<open>
  The cursor parser \<^verbatim>\<open>_.values(qs.parse(s, {delimiter: ';'}))\<close> belongs to two packages
  outside the repository; the builder takes it as the parameter \<open>parse_cursor\<close>.
\<close>

definition AddSearchAfter :: "(string \<Rightarrow> 'v list) \<Rightarrow> 'v request \<Rightarrow> params \<Rightarrow> 'v request" where
  "AddSearchAfter parse_cursor ejsBody params =
     (if truthy (params_search_after params)
      then ejsBody\<lparr>search_after := Some (parse_cursor (string_of (params_search_after params)))\<rparr>
      else ejsBody)"

text \<open>\<^verbatim>\<open>BuildQuery\<close> returns its result, or the object it throws, and the \<^verbatim>\<open>params\<close>
  object as the call leaves it.\<close>

definition BuildQuery :: "(string \<Rightarrow> 'v list) \<Rightarrow> params \<Rightarrow> (thrown + 'v request) \<times> params" where
  "BuildQuery parse_cursor params =
     (if \<not> truthy (params_search params) \<and> \<not> truthy (params_count params)
      then (Inr (AddSearchAfter parse_cursor (set_query MatchAllQuery Request) params), params)
      else if truthy (params_search params)
              \<and> \<not> SupportedQueryString (string_of (params_search params))
      then (Inl (Thrown ELASTICSEARCH_QUERY_ERROR
                  (''Search not supported: '' @ escape (string_of (params_search params)))),
            params)
      else
        (let q1 = (if truthy (params_search params)
                   then set_query
                          (QueryStringQuery (HandleDeprecatedClauses (string_of (params_search params))))
                          Request
                   else Request);
             q2 = (if truthy (params_count params)
                   then (if string_of (params_count params) \<in> set DATE_FIELDS
                         then agg ''histogram''
                                (DateHistogramAggregation (string_of (params_count params))
                                   ''day'' (''_key'', ''asc'') ''yyyyMMdd'' 1) q1
                         else agg ''count''
                                (TermsAggregation (string_of (params_count params))
                                   (map_option (\<lambda>n. n + 1000) (parseInt (params_limit params)))) q1)
                   else q1)
         in (Inr (AddSearchAfter parse_cursor q2 params), params)))"

text \<open>
  Modelled from the spec: the packages \<^verbatim>\<open>qs\<close> and \<^verbatim>\<open>underscore\<close>, whose functions
  \<^verbatim>\<open>qs.parse\<close> and \<^verbatim>\<open>_.values\<close> make the cursor parser, are not in the repository. The
  spec: ``parse it as a delimited (\<^verbatim>\<open>;\<close>-separated) key=value sequence, and inject its
  ordered values''. A segment is split at its first \<^verbatim>\<open>=\<close>; a segment with no key is
  not a pair and gives no value.
\<close>

definition pair_key :: "string \<Rightarrow> string" where
  "pair_key p = takeWhile (\<lambda>c. c \<noteq> CHR ''='') p"

definition pair_value :: "string \<Rightarrow> string" where
  "pair_value p = drop 1 (dropWhile (\<lambda>c. c \<noteq> CHR ''='') p)"

definition qs_values :: "string \<Rightarrow> string list" where
  "qs_values s = map pair_value (filter (\<lambda>p. pair_key p \<noteq> []) (split_str CHR '';'' s))"

section \<open>Notions of the specification and of the proofs\<close>

text \<open>
  The character set as the specification lists it: ASCII letters, digits, the
  punctuation \<^verbatim>\<open>. _ : ( ) " [ ] { } - + > < = , % & / '\<close> and the space.
\<close>

definition claimed_query_char :: "char \<Rightarrow> bool" where
  \<open>claimed_query_char c =
     (is_lower c \<or> is_upper c \<or> is_digit c
      \<or> c \<in> set ''._:()"[]{}-+><=,%&/'' \<or> c = CHR 0x27 \<or> c = CHR '' '')\<close>

text \<open>The object \<^verbatim>\<open>{}\<close> with no parameter set, and the module state at start-up.\<close>

definition no_params :: params where
  "no_params = \<lparr>params_search = None, params_count = None, params_sort = None,
                 params_limit = None, params_search_after = None\<rparr>"

definition fresh_world :: world where
  "fresh_world = \<lparr>fieldMappingCache = Map.empty, lookups = []\<rparr>"

text \<open>The decimal digits of a natural number, as \<^verbatim>\<open>String(n)\<close> prints them and as a
  request carries a limit.\<close>

definition digit_char :: "nat \<Rightarrow> char" where
  "digit_char k = ''0123456789'' ! k"

function decimal :: "nat \<Rightarrow> string" where
  "decimal n = (if n < 10 then [digit_char n] else decimal (n div 10) @ [digit_char (n mod 10)])"
  by pat_completeness auto
termination
  by (relation "measure id") auto

declare decimal.simps [simp del]

text \<open>A cursor written from a list of keys and values: \<^verbatim>\<open>k1=v1;k2=v2;...\<close>. The pairs
  are well formed when no key is empty and neither separator occurs where it would
  be read as one.\<close>

fun encode_cursor :: "(string \<times> string) list \<Rightarrow> string" where
  "encode_cursor [] = []"
| "encode_cursor [(k, v)] = k @ ''='' @ v"
| "encode_cursor ((k, v) # kvs) = k @ ''='' @ v @ '';'' @ encode_cursor kvs"

definition well_formed_pair :: "string \<times> string \<Rightarrow> bool" where
  "well_formed_pair kv =
     (fst kv \<noteq> [] \<and> CHR '';'' \<notin> set (fst kv) \<and> CHR ''='' \<notin> set (fst kv)
      \<and> CHR '';'' \<notin> set (snd kv))"

text \<open>
  The legacy operator as the specification describes it: the token \<^verbatim>\<open>_missing_:\<close>
  followed by a field path. A field path is an optional quotation mark, the longest
  run of word characters and dots, which must not be empty, and an optional quotation
  mark. \<open>field_path_at\<close> reads a field path from the start of a text and returns it
  with the text that follows; \<open>missing_at\<close> says that a text starts with the operator
  and a field path.
\<close>

definition MISSING_TOKEN :: string where
  "MISSING_TOKEN = ''_missing_:''"

definition is_path_char :: "char \<Rightarrow> bool" where
  "is_path_char c = (is_lower c \<or> is_upper c \<or> is_digit c \<or> c = CHR ''_'' \<or> c = CHR ''.'')"

definition field_path_at :: "string \<Rightarrow> (string \<times> string) option" where
  \<open>field_path_at t =
     (let q1 = (if is_prefix ''"'' t then ''"'' else []);
          t1 = drop (length q1) t;
          w = takeWhile is_path_char t1;
          t2 = dropWhile is_path_char t1;
          q2 = (if is_prefix ''"'' t2 then ''"'' else [])
      in if w = [] then None else Some (q1 @ w @ q2, drop (length q2) t2))\<close>

definition missing_at :: "string \<Rightarrow> bool" where
  "missing_at t =
     (is_prefix MISSING_TOKEN t \<and> field_path_at (drop (length MISSING_TOKEN) t) \<noteq> None)"

text \<open>No occurrence of the operator with a field path starts within \<open>pre\<close>, when
  \<open>pre\<close> is followed by \<open>rest\<close>.\<close>

fun operator_free :: "string \<Rightarrow> string \<Rightarrow> bool" where
  "operator_free [] rest = True"
| "operator_free (c # cs) rest = (\<not> missing_at (c # cs @ rest) \<and> operator_free cs rest)"

text \<open>The first element of a list of matcher states, if there is one.\<close>

definition first_of :: "'a list \<Rightarrow> 'a option" where
  "first_of xs = (case xs of [] \<Rightarrow> None | x # _ \<Rightarrow> Some x)"

text \<open>The states a greedy run over a character class leaves, the longest run first.\<close>

fun greedy_runs :: "class_item list \<Rightarrow> string \<Rightarrow> string \<Rightarrow> string option \<Rightarrow> mstate list" where
  "greedy_runs items pre [] cap = []"
| "greedy_runs items pre (c # cs) cap =
     (if in_class items c
      then greedy_runs items (pre @ [c]) cs cap @ [(pre @ [c], cs, cap)] else [])"

section \<open>Properties of the regular-expression matcher\<close>

lemma plus_iter_step:
  assumes f: "\<And>pre rest cap. f (pre, rest, cap) =
      (case rest of [] \<Rightarrow> [] | c # cs \<Rightarrow> if in_class items c then [(pre @ [c], cs, cap)] else [])"
  shows "length rest \<le> n \<Longrightarrow>
   plus_iter f (Suc n) (pre, rest, cap) = greedy_runs items pre rest cap"
proof (induction rest arbitrary: pre n)
  case Nil
  then show ?case by (simp add: f)
next
  case (Cons c cs)
  then obtain m where n: "n = Suc m" and m: "length cs \<le> m"
    by (cases n) auto
  have "plus_iter f (Suc n) (pre, c # cs, cap) =
        (if in_class items c
         then plus_iter f (Suc m) (pre @ [c], cs, cap) @ [(pre @ [c], cs, cap)]
         else [])"
    unfolding n by (subst plus_iter.simps(2)) (simp add: f del: plus_iter.simps)
  then show ?case using Cons.IH [OF m] by simp
qed

lemma rmatch_Plus_Class:
  "rmatch (Plus (Class items)) (pre, rest, cap) = greedy_runs items pre rest cap"
proof -
  have "plus_iter (rmatch (Class items)) (Suc (length rest)) (pre, rest, cap) =
        greedy_runs items pre rest cap"
    by (rule plus_iter_step) (simp_all split: list.splits)
  then show ?thesis by (simp del: plus_iter.simps)
qed

lemma greedy_runs_complete:
  "(\<exists>st \<in> set (greedy_runs items pre rest cap). fst (snd st) = []) \<longleftrightarrow>
   rest \<noteq> [] \<and> list_all (in_class items) rest"
proof (induction rest arbitrary: pre)
  case Nil
  then show ?case by simp
next
  case (Cons c cs)
  show ?case
  proof (cases "in_class items c")
    case False
    then show ?thesis by simp
  next
    case True
    have "(\<exists>st \<in> set (greedy_runs items pre (c # cs) cap). fst (snd st) = []) \<longleftrightarrow>
          (\<exists>st \<in> set (greedy_runs items (pre @ [c]) cs cap). fst (snd st) = []) \<or> cs = []"
      using True by auto
    also have "\<dots> \<longleftrightarrow> (cs \<noteq> [] \<and> list_all (in_class items) cs) \<or> cs = []"
      by (simp only: Cons.IH)
    also have "\<dots> \<longleftrightarrow> list_all (in_class items) cs"
      by auto
    finally show ?thesis using True by simp
  qed
qed

lemma rmatch_Eol_filter:
  "concat (map (rmatch Eol) sts) = filter (\<lambda>st. fst (snd st) = []) sts"
  by (induction sts) auto

lemma exec_from_Bol: "pre \<noteq> [] \<Longrightarrow> exec_from (Seq Bol r) pre rest = None"
  by (induction rest arbitrary: pre) auto

lemma test_anchored_class:
  "test (Seq Bol (Seq (Plus (Class items)) Eol)) s \<longleftrightarrow> s \<noteq> [] \<and> list_all (in_class items) s"
proof -
  let ?r = "Seq Bol (Seq (Plus (Class items)) Eol)"
  have "rmatch ?r ([], s, None) =
        concat (map (rmatch Eol) (rmatch (Plus (Class items)) ([], s, None)))"
    by (simp del: plus_iter.simps rmatch.simps(6))
  then have m: "rmatch ?r ([], s, None) =
        filter (\<lambda>st. fst (snd st) = []) (greedy_runs items [] s None)"
    by (simp only: rmatch_Plus_Class rmatch_Eol_filter)
  have e: "exec_from ?r [] s \<noteq> None \<longleftrightarrow> rmatch ?r ([], s, None) \<noteq> []"
    by (cases s) (auto simp: exec_from_Bol simp del: rmatch.simps split: list.splits)
  have "rmatch ?r ([], s, None) \<noteq> [] \<longleftrightarrow>
        (\<exists>st \<in> set (greedy_runs items [] s None). fst (snd st) = [])"
    unfolding m by (simp add: filter_empty_conv)
  then show ?thesis unfolding test_def e by (simp add: greedy_runs_complete)
qed

section \<open>The validator accepts exactly the strings over its character class\<close>

lemma SupportedQueryString_iff:
  "SupportedQueryString s \<longleftrightarrow> s \<noteq> [] \<and> list_all (in_class SUPPORTED_QUERY_CLASS) s"
  unfolding SupportedQueryString_def SUPPORTED_QUERY_RE_def by (rule test_anchored_class)

lemma in_class_Cons: "in_class (i # items) c \<longleftrightarrow> in_item i c \<or> in_class items c"
  and in_class_Nil: "in_class [] c \<longleftrightarrow> False"
  by (simp_all add: in_class_def)

lemma in_SUPPORTED_QUERY_CLASS:
  \<open>in_class SUPPORTED_QUERY_CLASS c \<longleftrightarrow> claimed_query_char c \<or> c = CHR ''@''\<close>
  unfolding SUPPORTED_QUERY_CLASS_def claimed_query_char_def in_class_Cons in_class_Nil
    in_item.simps is_lower_def is_upper_def is_digit_def list.set insert_iff empty_iff
  by (intro iffI; elim disjE; simp)

lemma in_SUPPORTED_QUERY_CLASS_fun:
  \<open>in_class SUPPORTED_QUERY_CLASS = (\<lambda>c. claimed_query_char c \<or> c = CHR ''@'')\<close>
  by (rule ext) (rule in_SUPPORTED_QUERY_CLASS)

text \<open>
  C1, as the code has it. \<^verbatim>\<open>SupportedQueryString\<close> returns true exactly for the
  non-empty strings all of whose characters are ASCII letters, digits, one of
  \<^verbatim>\<open>. _ : ( ) " [ ] { } - + > < = , % & / '\<close>, the space, or \<^verbatim>\<open>@\<close>; for the empty string
  and for every string with a character outside that set it returns false.
\<close>

theorem SupportedQueryString_charset:
  \<open>SupportedQueryString s \<longleftrightarrow>
     s \<noteq> [] \<and> list_all (\<lambda>c. claimed_query_char c \<or> c = CHR ''@'') s\<close>
  by (simp only: SupportedQueryString_iff in_SUPPORTED_QUERY_CLASS_fun)

theorem SupportedQueryString_charset_witness:
  \<open>SupportedQueryString ''patient.drug:"a b" AND @x'' \<and> \<not> SupportedQueryString ''a#b''\<close>
  using SupportedQueryString_charset [of \<open>''patient.drug:"a b" AND @x''\<close>]
    SupportedQueryString_charset [of "''a#b''"]
  by (simp add: claimed_query_char_def is_lower_def is_upper_def is_digit_def)

text \<open>
  The claim as the specification states it fails twice: \<^verbatim>\<open>a@b\<close> has a character
  outside the listed set and is accepted, and the empty string has no character
  outside it and is refused.
\<close>

theorem SupportedQueryString_claim_counterexample:
  \<open>\<not> list_all claimed_query_char ''a@b'' \<and> SupportedQueryString ''a@b'' \<and>
   list_all claimed_query_char [] \<and> \<not> SupportedQueryString []\<close>
  by (simp add: SupportedQueryString_iff in_SUPPORTED_QUERY_CLASS claimed_query_char_def
      is_lower_def is_upper_def is_digit_def)

section \<open>The field-sortability cache: lookups and failures\<close>

lemma isSortableField_cached:
  "idx \<noteq> [] \<Longrightarrow> field \<noteq> [] \<Longrightarrow> fieldMappingCache w (idx @ ''.'' @ field) = Some b \<Longrightarrow>
   isSortableField client field (Some idx) w = (b, w)"
  by (simp add: isSortableField_def)

lemma isSortableField_absent:
  "index = None \<or> index = Some [] \<or> field = [] \<Longrightarrow>
   isSortableField client field index w = (False, w)"
  by (auto simp: isSortableField_def split: option.splits)

lemma isSortableField_lookup:
  "idx \<noteq> [] \<Longrightarrow> field \<noteq> [] \<Longrightarrow> fieldMappingCache w (idx @ ''.'' @ field) = None \<Longrightarrow>
   isFieldTypeAcceptableForSorting client field idx w = (b, w1) \<Longrightarrow>
   isSortableField client field (Some idx) w =
     (b, w1\<lparr>fieldMappingCache := (fieldMappingCache w1)(idx @ ''.'' @ field \<mapsto> b)\<rparr>)"
  by (simp add: isSortableField_def Let_def)

lemma isFieldType_throws:
  "client idx field = LookupThrows \<or> (\<exists>ms. client idx field = Mappings (JNull # ms)) \<Longrightarrow>
   isFieldTypeAcceptableForSorting client field idx w =
     (False, \<lparr>fieldMappingCache = Map.empty, lookups = lookups w @ [(idx, field)]\<rparr>)"
  by (auto simp: isFieldTypeAcceptableForSorting_def flushAll_def Let_def)

lemma isFieldType_no_mapping:
  "client idx field = Mappings [] \<or> (\<exists>ms. client idx field = Mappings (JObject None # ms)) \<Longrightarrow>
   isFieldTypeAcceptableForSorting client field idx w =
     (False, w\<lparr>lookups := lookups w @ [(idx, field)]\<rparr>)"
  by (auto simp: isFieldTypeAcceptableForSorting_def flushAll_def Let_def)

lemma isFieldType_typed:
  "client idx field = Mappings (JObject (Some t) # ms) \<Longrightarrow>
   isFieldTypeAcceptableForSorting client field idx w =
     (t \<in> set SORTABLE_FIELD_TYPES, w\<lparr>lookups := lookups w @ [(idx, field)]\<rparr>)"
  by (auto simp: isFieldTypeAcceptableForSorting_def flushAll_def Let_def string_of_def SORTABLE_FIELD_TYPES_def)


lemma isSortableField_throws:
  assumes "idx \<noteq> []" "field \<noteq> []" "fieldMappingCache w (idx @ ''.'' @ field) = None"
    and "client idx field = LookupThrows \<or> (\<exists>ms. client idx field = Mappings (JNull # ms))"
  shows "isSortableField client field (Some idx) w =
     (False, \<lparr>fieldMappingCache = [idx @ ''.'' @ field \<mapsto> False],
              lookups = lookups w @ [(idx, field)]\<rparr>)"
  using isSortableField_lookup [OF assms(1-3) isFieldType_throws [of client idx field w, OF assms(4)]] by simp

lemma isSortableField_no_mapping:
  assumes "idx \<noteq> []" "field \<noteq> []" "fieldMappingCache w (idx @ ''.'' @ field) = None"
    and "client idx field = Mappings [] \<or> (\<exists>ms. client idx field = Mappings (JObject None # ms))"
  shows "isSortableField client field (Some idx) w =
     (False, \<lparr>fieldMappingCache = (fieldMappingCache w)(idx @ ''.'' @ field \<mapsto> False),
              lookups = lookups w @ [(idx, field)]\<rparr>)"
  using isSortableField_lookup [OF assms(1-3) isFieldType_no_mapping [of client idx field w, OF assms(4)]] by simp

text \<open>
  C2, where the code departs from the claim. A lookup that throws flushes the cache,
  and then \<^verbatim>\<open>isSortableField\<close> stores the \<^verbatim>\<open>false\<close> it got back under the key of the
  request: after the call the cache holds an entry for the pair whose lookup failed.
  A later call for the same pair is answered from that entry, without a lookup, also
  when the search engine would by then report a sortable type.
\<close>

theorem isSortableField_remembers_failure:
  "isSortableField (\<lambda>i f. LookupThrows) ''brand'' (Some ''drugevent'')
     \<lparr>fieldMappingCache = Map.empty, lookups = []\<rparr> =
     (False, \<lparr>fieldMappingCache = [''drugevent.brand'' \<mapsto> False],
              lookups = [(''drugevent'', ''brand'')]\<rparr>) \<and>
   isSortableField (\<lambda>i f. Mappings [JObject (Some ''keyword'')]) ''brand'' (Some ''drugevent'')
     \<lparr>fieldMappingCache = [''drugevent.brand'' \<mapsto> False],
      lookups = [(''drugevent'', ''brand'')]\<rparr> =
     (False, \<lparr>fieldMappingCache = [''drugevent.brand'' \<mapsto> False],
              lookups = [(''drugevent'', ''brand'')]\<rparr>)"
  by (simp add: isSortableField_throws isSortableField_cached)

text \<open>
  C3, as the code has it. When the lookup for a pair throws (the request fails, or the
  response cannot be read), \<^verbatim>\<open>isSortableField\<close> returns false and every entry cached
  for another key is gone. When the lookup returns normally and reports no mapping,
  \<^verbatim>\<open>isSortableField\<close> returns false as well, and the entries cached for other keys
  stay as they were.
\<close>

theorem isSortableField_failed_lookup:
  assumes "idx \<noteq> []" "field \<noteq> []" "fieldMappingCache w (idx @ ''.'' @ field) = None"
  shows "(client idx field = LookupThrows \<or> (\<exists>ms. client idx field = Mappings (JNull # ms)) \<longrightarrow>
       \<not> fst (isSortableField client field (Some idx) w) \<and>
       (\<forall>k. k \<noteq> idx @ ''.'' @ field \<longrightarrow>
            fieldMappingCache (snd (isSortableField client field (Some idx) w)) k = None)) \<and>
     (client idx field = Mappings [] \<longrightarrow>
       \<not> fst (isSortableField client field (Some idx) w) \<and>
       (\<forall>k. k \<noteq> idx @ ''.'' @ field \<longrightarrow>
            fieldMappingCache (snd (isSortableField client field (Some idx) w)) k =
            fieldMappingCache w k))"
  using isSortableField_throws [OF assms, of client] isSortableField_no_mapping [OF assms, of client]
  by simp

theorem isSortableField_failed_lookup_witness:
  "\<not> fst (isSortableField (\<lambda>i f. LookupThrows) ''brand'' (Some ''drugevent'')
            \<lparr>fieldMappingCache = [''recall.status'' \<mapsto> True], lookups = []\<rparr>) \<and>
   fieldMappingCache (snd (isSortableField (\<lambda>i f. LookupThrows) ''brand'' (Some ''drugevent'')
            \<lparr>fieldMappingCache = [''recall.status'' \<mapsto> True], lookups = []\<rparr>))
     ''recall.status'' = None"
  using isSortableField_failed_lookup [of "''drugevent''" "''brand''"
      "\<lparr>fieldMappingCache = [''recall.status'' \<mapsto> True], lookups = []\<rparr>" "\<lambda>i f. LookupThrows"]
  by simp

text \<open>
  The claim counts a missing mapping among the failures that clear the cache. It does
  not: with an entry cached for an unrelated key, a lookup that reports no mapping
  leaves that entry in place.
\<close>

theorem isSortableField_missing_mapping_counterexample:
  "\<not> fst (isSortableField (\<lambda>i f. Mappings []) ''brand'' (Some ''drugevent'')
            \<lparr>fieldMappingCache = [''recall.status'' \<mapsto> True], lookups = []\<rparr>) \<and>
   fieldMappingCache (snd (isSortableField (\<lambda>i f. Mappings []) ''brand'' (Some ''drugevent'')
            \<lparr>fieldMappingCache = [''recall.status'' \<mapsto> True], lookups = []\<rparr>))
     ''recall.status'' = Some True"
  by (simp add: isSortableField_no_mapping)


lemma is_prefix_iff: "is_prefix p s \<longleftrightarrow> (\<exists>post. s = p @ post)"
  unfolding is_prefix_def
  by (metis append_eq_conv_conj append_take_drop_id)

lemma indexOf_from_found:
  "indexOf_from i s sub \<noteq> - 1 \<longleftrightarrow> (\<exists>pre post. s = pre @ sub @ post)"
proof (induction s arbitrary: i)
  case Nil
  then show ?case by simp
next
  case (Cons c cs)
  show ?case
  proof (cases "is_prefix sub (c # cs)")
    case True
    then obtain post where "c # cs = sub @ post" by (auto simp: is_prefix_iff)
    then have "c # cs = [] @ sub @ post" by simp
    then have "\<exists>pre post. c # cs = pre @ sub @ post" by blast
    then show ?thesis using True by simp
  next
    case False
    have "(\<exists>pre post. c # cs = pre @ sub @ post) \<longleftrightarrow> (\<exists>pre post. cs = pre @ sub @ post)"
    proof
      assume "\<exists>pre post. c # cs = pre @ sub @ post"
      then obtain pre post where e: "c # cs = pre @ sub @ post" by blast
      show "\<exists>pre post. cs = pre @ sub @ post"
      proof (cases pre)
        case Nil
        then have "is_prefix sub (c # cs)" using e by (auto simp: is_prefix_iff)
        then show ?thesis using False by simp
      next
        case (Cons a pre')
        then have "cs = pre' @ sub @ post" using e by simp
        then show ?thesis by blast
      qed
    next
      assume "\<exists>pre post. cs = pre @ sub @ post"
      then obtain pre post where "cs = pre @ sub @ post" by blast
      then have "c # cs = (c # pre) @ sub @ post" by simp
      then show "\<exists>pre post. c # cs = pre @ sub @ post" by blast
    qed
    then show ?thesis using False Cons.IH [of "Suc i"] by simp
  qed
qed

lemma indexOf_found: "indexOf s sub \<noteq> - 1 \<longleftrightarrow> (\<exists>pre post. s = pre @ sub @ post)"
  unfolding indexOf_def by (rule indexOf_from_found)

lemma split_str_takeWhile:
  "\<exists>xs. split_str sep s = takeWhile (\<lambda>c. c \<noteq> sep) s # xs"
  by (induction s) auto

lemma sort_field_takeWhile: "sort_field s = takeWhile (\<lambda>c. c \<noteq> CHR '':'') s"
  using split_str_takeWhile [of "CHR '':''" s] by (auto simp: sort_field_def)

lemma endsWith_iff: "endsWith s suffix \<longleftrightarrow> (\<exists>pre. s = pre @ suffix)"
  unfolding endsWith_def
  by (metis append_eq_conv_conj append_take_drop_id diff_add_inverse2 le_add2 length_append length_drop)

lemma field_exact_contains:
  assumes "endsWith (sort_field s) ''exact''"
  shows "indexOf s ''exact'' \<noteq> - 1"
proof -
  obtain pre where p: "sort_field s = pre @ ''exact''"
    using assms by (auto simp: endsWith_iff)
  have "s = sort_field s @ dropWhile (\<lambda>c. c \<noteq> CHR '':'') s"
    by (simp add: sort_field_takeWhile)
  then have "s = pre @ ''exact'' @ dropWhile (\<lambda>c. c \<noteq> CHR '':'') s"
    using p by simp
  then show ?thesis unfolding indexOf_found by blast
qed

lemma DATE_FIELDS_nonempty: "[] \<notin> set DATE_FIELDS"
  by (simp add: DATE_FIELDS_def)

lemma truthy_find_DATE_FIELDS:
  "truthy (find P DATE_FIELDS) \<longleftrightarrow> list_ex P DATE_FIELDS"
proof (cases "find P DATE_FIELDS")
  case None
  then have "\<not> list_ex P DATE_FIELDS" by (simp add: find_None_iff list_ex_iff)
  then show ?thesis using None by simp
next
  case (Some f)
  then have "f \<in> set DATE_FIELDS" "P f"
    by (auto simp: find_Some_iff)
  then show ?thesis using Some DATE_FIELDS_nonempty by (auto simp: list_ex_iff)
qed

lemma SupportedQueryString_nonempty: "SupportedQueryString s \<Longrightarrow> s \<noteq> []"
  by (simp add: SupportedQueryString_iff)

lemma BuildSort_absent:
  "\<not> truthy (params_sort p) \<Longrightarrow> BuildSort client p index w = (Inr ''_id'', p, w)"
  by (simp add: BuildSort_def)

lemma BuildSort_unsupported:
  "truthy (params_sort p) \<Longrightarrow> s = trim (string_of (params_sort p)) \<Longrightarrow>
   \<not> SupportedQueryString s \<Longrightarrow>
   BuildSort client p index w =
     (Inl (Thrown ELASTICSEARCH_QUERY_ERROR (''Sort not supported: '' @ escape s)),
      p\<lparr>params_sort := Some s\<rparr>, w)"
  by (simp add: BuildSort_def Let_def)

lemma BuildSort_unchecked:
  "truthy (params_sort p) \<Longrightarrow> s = trim (string_of (params_sort p)) \<Longrightarrow>
   SupportedQueryString s \<Longrightarrow>
   indexOf s ''exact'' \<noteq> - 1 \<or> list_ex (\<lambda>f. endsWith (sort_field s) f) DATE_FIELDS \<Longrightarrow>
   BuildSort client p index w = (Inr (s @ '',_id''), p\<lparr>params_sort := Some s\<rparr>, w)"
  by (auto simp add: BuildSort_def Let_def truthy_find_DATE_FIELDS SupportedQueryString_nonempty)

lemma BuildSort_checked:
  "truthy (params_sort p) \<Longrightarrow> s = trim (string_of (params_sort p)) \<Longrightarrow>
   SupportedQueryString s \<Longrightarrow> indexOf s ''exact'' = - 1 \<Longrightarrow>
   \<not> list_ex (\<lambda>f. endsWith (sort_field s) f) DATE_FIELDS \<Longrightarrow>
   isSortableField client (sort_field s) index w = (sortable, w') \<Longrightarrow>
   BuildSort client p index w =
     (if sortable then Inr (s @ '',_id'')
      else Inl (Thrown ELASTICSEARCH_QUERY_ERROR
                 (''Sorting allowed by non-analyzed fields only: '' @ escape (sort_field s))),
      p\<lparr>params_sort := Some s\<rparr>, w')"
  by (auto simp add: BuildSort_def Let_def truthy_find_DATE_FIELDS SupportedQueryString_nonempty)


lemmas string_eval = trim_def is_space_def indexOf_def is_prefix_def endsWith_def sort_field_def
  string_of_def escape_def

lemmas supported_eval = SupportedQueryString_iff in_class_def SUPPORTED_QUERY_CLASS_def

section \<open>The sort builder: which expressions pass\<close>

text \<open>
  C4, as the code has it. Let the sort expression be given and, once trimmed, pass the
  validator. If it contains \<^verbatim>\<open>exact\<close> anywhere, as it does whenever its field name ends
  in \<^verbatim>\<open>exact\<close>, \<^verbatim>\<open>BuildSort\<close> accepts it and leaves the module state untouched: neither
  the date fields nor the cache nor the search engine are consulted. If it does not
  contain \<^verbatim>\<open>exact\<close>, its field name ends in no date field and the metadata-backed check
  does not confirm the field, \<^verbatim>\<open>BuildSort\<close> throws the query error whose message
  carries the escaped field name.
\<close>

theorem BuildSort_sortability:
  assumes "truthy (params_sort p)" and "s = trim (string_of (params_sort p))"
    and "SupportedQueryString s"
  shows "(endsWith (sort_field s) ''exact'' \<or> indexOf s ''exact'' \<noteq> - 1 \<longrightarrow>
            BuildSort client p index w = (Inr (s @ '',_id''), p\<lparr>params_sort := Some s\<rparr>, w)) \<and>
         (indexOf s ''exact'' = - 1 \<and> \<not> list_ex (\<lambda>f. endsWith (sort_field s) f) DATE_FIELDS \<and>
          \<not> fst (isSortableField client (sort_field s) index w) \<longrightarrow>
            fst (BuildSort client p index w) =
              Inl (Thrown ELASTICSEARCH_QUERY_ERROR
                    (''Sorting allowed by non-analyzed fields only: '' @ escape (sort_field s))))"
proof (intro conjI impI)
  assume "endsWith (sort_field s) ''exact'' \<or> indexOf s ''exact'' \<noteq> - 1"
  then have "indexOf s ''exact'' \<noteq> - 1"
    using field_exact_contains by blast
  then show "BuildSort client p index w = (Inr (s @ '',_id''), p\<lparr>params_sort := Some s\<rparr>, w)"
    using BuildSort_unchecked [OF assms] by blast
next
  assume a: "indexOf s ''exact'' = - 1 \<and> \<not> list_ex (\<lambda>f. endsWith (sort_field s) f) DATE_FIELDS \<and>
          \<not> fst (isSortableField client (sort_field s) index w)"
  obtain b w' where i: "isSortableField client (sort_field s) index w = (b, w')"
    by (cases "isSortableField client (sort_field s) index w")
  with a have "\<not> b" by simp
  then show "fst (BuildSort client p index w) =
              Inl (Thrown ELASTICSEARCH_QUERY_ERROR
                    (''Sorting allowed by non-analyzed fields only: '' @ escape (sort_field s)))"
    using BuildSort_checked [OF assms _ _ i] a by simp
qed

theorem BuildSort_sortability_witness:
  "BuildSort (\<lambda>i f. LookupThrows) (no_params\<lparr>params_sort := Some ''openfda.brand_name.exact:desc''\<rparr>)
     (Some ''drugevent'') fresh_world =
     (Inr ''openfda.brand_name.exact:desc,_id'',
      no_params\<lparr>params_sort := Some ''openfda.brand_name.exact:desc''\<rparr>, fresh_world) \<and>
   fst (BuildSort (\<lambda>i f. Mappings [JObject (Some ''text'')])
          (no_params\<lparr>params_sort := Some ''brand_name:asc''\<rparr>) (Some ''drugevent'') fresh_world) =
     Inl (Thrown ELASTICSEARCH_QUERY_ERROR ''Sorting allowed by non-analyzed fields only: brand_name'')"
proof -
  have t: "isSortableField (\<lambda>i f. Mappings [JObject (Some ''text'')]) ''brand_name''
             (Some ''drugevent'') fresh_world =
           (False, \<lparr>fieldMappingCache = [''drugevent.brand_name'' \<mapsto> False],
                    lookups = [(''drugevent'', ''brand_name'')]\<rparr>)"
    by (simp add: isSortableField_def isFieldTypeAcceptableForSorting_def fresh_world_def
        SORTABLE_FIELD_TYPES_def string_of_def)
  have d: "\<not> list_ex (\<lambda>f. endsWith ''brand_name'' f) DATE_FIELDS"
    by (simp add: DATE_FIELDS_def endsWith_def)
  show ?thesis
    using BuildSort_sortability [of "no_params\<lparr>params_sort := Some ''openfda.brand_name.exact:desc''\<rparr>"
        "''openfda.brand_name.exact:desc''" "\<lambda>i f. LookupThrows" "Some ''drugevent''" fresh_world]
      BuildSort_sortability [of "no_params\<lparr>params_sort := Some ''brand_name:asc''\<rparr>"
        "''brand_name:asc''" "\<lambda>i f. Mappings [JObject (Some ''text'')]" "Some ''drugevent''" fresh_world]
      t d
    by (simp add: string_eval supported_eval no_params_def)
qed

text \<open>
  The claim rejects every field name that does not end in \<^verbatim>\<open>exact\<close>, matches no date
  field and is not confirmed by the metadata. The field \<^verbatim>\<open>exactness\<close> is such a name (the
  search engine reports the type \<^verbatim>\<open>text\<close>), and its sort expression is accepted, since
  the source tests with \<^verbatim>\<open>indexOf\<close> whether the expression contains \<^verbatim>\<open>exact\<close>.
\<close>

theorem BuildSort_exact_substring_counterexample:
  "\<not> endsWith (sort_field ''exactness:asc'') ''exact'' \<and>
   \<not> list_ex (\<lambda>f. endsWith (sort_field ''exactness:asc'') f) DATE_FIELDS \<and>
   \<not> fst (isSortableField (\<lambda>i f. Mappings [JObject (Some ''text'')])
            (sort_field ''exactness:asc'') (Some ''drugevent'') fresh_world) \<and>
   fst (BuildSort (\<lambda>i f. Mappings [JObject (Some ''text'')])
          (no_params\<lparr>params_sort := Some ''exactness:asc''\<rparr>) (Some ''drugevent'') fresh_world) =
     Inr ''exactness:asc,_id''"
proof -
  have f: "sort_field ''exactness:asc'' = ''exactness''"
    by (simp add: sort_field_def)
  have s: "SupportedQueryString ''exactness:asc''"
    by (simp add: supported_eval)
  have "fst (BuildSort (\<lambda>i f. Mappings [JObject (Some ''text'')])
          (no_params\<lparr>params_sort := Some ''exactness:asc''\<rparr>) (Some ''drugevent'') fresh_world) =
     Inr ''exactness:asc,_id''"
    by (subst BuildSort_unchecked [where s = "''exactness:asc''"])
      (simp_all add: s, simp_all add: string_eval no_params_def)
  then show ?thesis
    unfolding f
    by (simp add: isSortableField_def isFieldTypeAcceptableForSorting_def fresh_world_def
        SORTABLE_FIELD_TYPES_def string_of_def DATE_FIELDS_def endsWith_def)
qed


section \<open>What the builders do to their argument\<close>

lemma BuildSort_params:
  "fst (snd (BuildSort client p index w)) =
     (if truthy (params_sort p) then p\<lparr>params_sort := Some (trim (string_of (params_sort p)))\<rparr> else p)"
  by (simp add: BuildSort_def Let_def split: prod.splits)

lemma BuildQuery_params: "snd (BuildQuery qs p) = p"
  by (simp add: BuildQuery_def Let_def)

text \<open>
  C5, as the code has it. \<^verbatim>\<open>BuildQuery\<close> leaves \<^verbatim>\<open>params\<close> as it found it, whether it
  returns or throws. \<^verbatim>\<open>BuildSort\<close>, whether it returns or throws, leaves \<^verbatim>\<open>search\<close>,
  \<^verbatim>\<open>count\<close>, \<^verbatim>\<open>limit\<close> and \<^verbatim>\<open>search_after\<close> as it found them and, when \<^verbatim>\<open>sort\<close> is
  given, overwrites \<^verbatim>\<open>sort\<close> with its trimmed value.
\<close>

theorem params_frame:
  "snd (BuildQuery qs p) = p \<and>
   fst (snd (BuildSort client p index w)) =
     (if truthy (params_sort p) then p\<lparr>params_sort := Some (trim (string_of (params_sort p)))\<rparr> else p) \<and>
   params_search (fst (snd (BuildSort client p index w))) = params_search p \<and>
   params_count (fst (snd (BuildSort client p index w))) = params_count p \<and>
   params_limit (fst (snd (BuildSort client p index w))) = params_limit p \<and>
   params_search_after (fst (snd (BuildSort client p index w))) = params_search_after p"
  by (simp add: BuildSort_params BuildQuery_params)

theorem params_frame_witness:
  "snd (BuildQuery qs_values (no_params\<lparr>params_search := Some ''a#b''\<rparr>)) =
     no_params\<lparr>params_search := Some ''a#b''\<rparr> \<and>
   fst (snd (BuildSort (\<lambda>i f. LookupThrows) (no_params\<lparr>params_sort := Some ''receivedate:desc  ''\<rparr>)
              None fresh_world)) =
     no_params\<lparr>params_sort := Some ''receivedate:desc''\<rparr>"
  using params_frame [of qs_values "no_params\<lparr>params_search := Some ''a#b''\<rparr>"
      "\<lambda>i f. LookupThrows" None fresh_world]
    params_frame [of qs_values "no_params\<lparr>params_sort := Some ''receivedate:desc  ''\<rparr>"
      "\<lambda>i f. LookupThrows" None fresh_world]
  by (simp add: string_eval)

text \<open>
  The claim that \<^verbatim>\<open>BuildSort\<close> never writes to \<^verbatim>\<open>params\<close> fails for a sort expression
  with white space around it: the call replaces it by the trimmed text.
\<close>

theorem BuildSort_trims_params_counterexample:
  "params_sort (fst (snd (BuildSort (\<lambda>i f. LookupThrows)
      (no_params\<lparr>params_sort := Some '' receivedate''\<rparr>) None fresh_world))) = Some ''receivedate'' \<and>
   params_sort (no_params\<lparr>params_sort := Some '' receivedate''\<rparr>) = Some '' receivedate'' \<and>
   fst (BuildSort (\<lambda>i f. LookupThrows)
      (no_params\<lparr>params_sort := Some '' receivedate''\<rparr>) None fresh_world) = Inr ''receivedate,_id''"
proof -
  have d: "list_ex (\<lambda>f. endsWith ''receivedate'' f) DATE_FIELDS"
    by (simp add: DATE_FIELDS_def endsWith_def)
  have s: "SupportedQueryString ''receivedate''"
    by (simp add: supported_eval)
  have "BuildSort (\<lambda>i f. LookupThrows) (no_params\<lparr>params_sort := Some '' receivedate''\<rparr>) None fresh_world
        = (Inr (''receivedate'' @ '',_id''),
           no_params\<lparr>params_sort := Some '' receivedate'', params_sort := Some ''receivedate''\<rparr>,
           fresh_world)"
    by (rule BuildSort_unchecked) (simp_all add: s, simp_all add: string_eval d)
  then show ?thesis by simp
qed

section \<open>The sort builder: its result\<close>

text \<open>
  C8, as the code has it. Without a sort parameter \<^verbatim>\<open>BuildSort\<close> returns \<^verbatim>\<open>_id\<close>. For
  the sort expression \<^verbatim>\<open>patientdeathdate:desc\<close> it returns \<^verbatim>\<open>patientdeathdate:desc,_id\<close>
  for every mapping client and leaves the module state, with its record of the
  lookups issued, as it was. Every successful result for a given sort expression is
  the trimmed expression followed by \<^verbatim>\<open>,_id\<close>.
\<close>

theorem BuildSort_result:
  "(\<not> truthy (params_sort p) \<longrightarrow> BuildSort client p index w = (Inr ''_id'', p, w)) \<and>
   (params_sort p = Some ''patientdeathdate:desc'' \<longrightarrow>
      BuildSort client p index w = (Inr ''patientdeathdate:desc,_id'', p, w)) \<and>
   (truthy (params_sort p) \<and> fst (BuildSort client p index w) = Inr r \<longrightarrow>
      r = trim (string_of (params_sort p)) @ '',_id'')"
proof (intro conjI impI)
  assume "\<not> truthy (params_sort p)"
  then show "BuildSort client p index w = (Inr ''_id'', p, w)"
    by (rule BuildSort_absent)
next
  assume a: "params_sort p = Some ''patientdeathdate:desc''"
  have d: "list_ex (\<lambda>f. endsWith ''patientdeathdate'' f) DATE_FIELDS"
    by (simp add: DATE_FIELDS_def endsWith_def)
  have s: "SupportedQueryString ''patientdeathdate:desc''"
    by (simp add: supported_eval)
  have "BuildSort client p index w =
        (Inr (''patientdeathdate:desc'' @ '',_id''),
         p\<lparr>params_sort := Some ''patientdeathdate:desc''\<rparr>, w)"
    by (rule BuildSort_unchecked) (simp_all add: a s, simp_all add: string_eval d)
  moreover have "p\<lparr>params_sort := Some ''patientdeathdate:desc''\<rparr> = p"
    using a by (cases p) simp
  ultimately show "BuildSort client p index w = (Inr ''patientdeathdate:desc,_id'', p, w)"
    by simp
next
  assume a: "truthy (params_sort p) \<and> fst (BuildSort client p index w) = Inr r"
  then show "r = trim (string_of (params_sort p)) @ '',_id''"
    by (auto simp: BuildSort_def Let_def SupportedQueryString_iff split: if_splits prod.splits)
qed

theorem BuildSort_result_witness:
  "BuildSort (\<lambda>i f. LookupThrows) no_params (Some ''drugevent'') fresh_world =
     (Inr ''_id'', no_params, fresh_world) \<and>
   BuildSort (\<lambda>i f. LookupThrows) (no_params\<lparr>params_sort := Some ''patientdeathdate:desc''\<rparr>)
       (Some ''drugevent'') fresh_world =
     (Inr ''patientdeathdate:desc,_id'', no_params\<lparr>params_sort := Some ''patientdeathdate:desc''\<rparr>,
      fresh_world)"
  using BuildSort_result [of no_params "\<lambda>i f. LookupThrows" "Some ''drugevent''" fresh_world]
    BuildSort_result [of "no_params\<lparr>params_sort := Some ''patientdeathdate:desc''\<rparr>"
      "\<lambda>i f. LookupThrows" "Some ''drugevent''" fresh_world]
  by (simp add: no_params_def)

text \<open>
  The result is not always the given expression followed by \<^verbatim>\<open>,_id\<close>: leading and
  trailing white space is removed first.
\<close>

theorem BuildSort_untrimmed_counterexample:
  "fst (BuildSort (\<lambda>i f. LookupThrows) (no_params\<lparr>params_sort := Some '' foo.exact''\<rparr>)
         (Some ''drugevent'') fresh_world) = Inr ''foo.exact,_id'' \<and>
   ''foo.exact,_id'' \<noteq> '' foo.exact'' @ '',_id''"
proof -
  have s: "SupportedQueryString ''foo.exact''"
    by (simp add: supported_eval)
  have "BuildSort (\<lambda>i f. LookupThrows) (no_params\<lparr>params_sort := Some '' foo.exact''\<rparr>)
         (Some ''drugevent'') fresh_world
        = (Inr (''foo.exact'' @ '',_id''),
           no_params\<lparr>params_sort := Some '' foo.exact'', params_sort := Some ''foo.exact''\<rparr>,
           fresh_world)"
    by (rule BuildSort_unchecked) (simp_all add: s, simp_all add: string_eval)
  then show ?thesis by simp
qed

section \<open>The query builder: the document it returns\<close>

lemma digit_char_cases:
  assumes "k < 10"
  shows "is_digit (digit_char k) \<and> digit_value (digit_char k) = k"
proof -
  from assms have "k = 0 \<or> k = 1 \<or> k = 2 \<or> k = 3 \<or> k = 4 \<or> k = 5 \<or> k = 6
    \<or> k = 7 \<or> k = 8 \<or> k = 9" by arith
  then show ?thesis
    by (elim disjE) (simp_all add: digit_char_def is_digit_def digit_value_def)
qed

lemma decimal_digits: "list_all is_digit (decimal n)"
proof (induction n rule: decimal.induct)
  case (1 n)
  show ?case
  proof (cases "n < 10")
    case True
    then show ?thesis by (subst decimal.simps) (simp add: digit_char_cases)
  next
    case False
    then show ?thesis using 1 by (subst decimal.simps) (simp add: digit_char_cases)
  qed
qed

lemma decimal_nonempty: "decimal n \<noteq> []"
  by (subst decimal.simps) simp

lemma decimal_value: "foldl (\<lambda>a c. a * 10 + digit_value c) 0 (decimal n) = n"
proof (induction n rule: decimal.induct)
  case (1 n)
  show ?case
  proof (cases "n < 10")
    case True
    then show ?thesis by (subst decimal.simps) (simp add: digit_char_cases)
  next
    case False
    then show ?thesis using 1 by (subst decimal.simps) (simp add: digit_char_cases)
  qed
qed

lemma parse_digits_decimal: "parse_digits is_digit 10 (decimal n) = Some n"
proof -
  have tw: "takeWhile is_digit (decimal n) = decimal n"
    using decimal_digits [of n] by (simp add: list_all_iff)
  show ?thesis
    unfolding parse_digits_def Let_def tw by (simp add: decimal_nonempty decimal_value)
qed

lemma is_digit_not_sign:
  "is_digit c \<Longrightarrow> \<not> is_space c \<and> c \<noteq> CHR ''-'' \<and> c \<noteq> CHR ''+'' \<and> c \<noteq> CHR ''x'' \<and> c \<noteq> CHR ''X''"
  by (auto simp: is_digit_def is_space_def)

lemma parseInt_string_decimal: "parseInt_string (decimal n) = Some (int n)"
proof -
  obtain c cs where d: "decimal n = c # cs"
    using decimal_nonempty [of n] by (cases "decimal n") auto
  have all: "is_digit c" "list_all is_digit cs"
    using decimal_digits [of n] d by simp_all
  have c: "\<not> is_space c" "c \<noteq> CHR ''-''" "c \<noteq> CHR ''+''"
    using all(1) is_digit_not_sign by blast+
  have x: "take (Suc 0) cs \<noteq> ''x''" "take (Suc 0) cs \<noteq> ''X''"
    using all(2) is_digit_not_sign by (cases cs; auto)+
  show ?thesis
    using parse_digits_decimal [of n] c x unfolding d
    by (simp add: parseInt_string_def is_prefix_def Let_def)
qed


lemma BuildQuery_returns:
  "\<not> truthy (params_search p) \<or> SupportedQueryString (string_of (params_search p)) \<Longrightarrow>
   \<exists>d. fst (BuildQuery qs p) = Inr d"
  by (auto simp: BuildQuery_def Let_def)

lemma BuildQuery_query:
  "fst (BuildQuery qs p) = Inr d \<Longrightarrow>
   query d = (if truthy (params_search p)
              then Some (QueryStringQuery (HandleDeprecatedClauses (string_of (params_search p))))
              else if truthy (params_count p) then None else Some MatchAllQuery)"
  by (auto simp: BuildQuery_def Let_def AddSearchAfter_def set_query_def agg_def Request_def
      split: if_splits)

lemma BuildQuery_aggs:
  "fst (BuildQuery qs p) = Inr d \<Longrightarrow>
   aggs d = (if truthy (params_count p)
             then (if string_of (params_count p) \<in> set DATE_FIELDS
                   then [(''histogram'',
                          DateHistogramAggregation (string_of (params_count p)) ''day''
                            (''_key'', ''asc'') ''yyyyMMdd'' 1)]
                   else [(''count'',
                          TermsAggregation (string_of (params_count p))
                            (map_option (\<lambda>n. n + 1000) (parseInt (params_limit p))))])
             else [])"
  by (auto simp: BuildQuery_def Let_def AddSearchAfter_def set_query_def agg_def Request_def
      split: if_splits)

lemma BuildQuery_cursor:
  "fst (BuildQuery qs p) = Inr d \<Longrightarrow>
   search_after d = (if truthy (params_search_after p)
                     then Some (qs (string_of (params_search_after p))) else None)"
  by (auto simp: BuildQuery_def Let_def AddSearchAfter_def set_query_def agg_def Request_def
      split: if_splits)





text \<open>
  C7. Let \<^verbatim>\<open>count\<close> be given, and \<^verbatim>\<open>search\<close> be absent or pass the validator, so that
  \<^verbatim>\<open>BuildQuery\<close> returns a document. If the count field is a member of the date-field
  set, the document's aggregation is the date histogram on that field with interval
  \<^verbatim>\<open>day\<close>, ordered ascending by \<^verbatim>\<open>_key\<close>, formatted \<^verbatim>\<open>yyyyMMdd\<close>, with a minimal document
  count of 1 (no empty bucket). Otherwise, for a positive integer limit \<open>L\<close>, given as a
  number or by its decimal digits, it is the terms aggregation on that field with
  size \<open>L + 1000\<close> (a sum within the range in which numbers are exact).
\<close>

theorem BuildQuery_count_aggregation:
  assumes "truthy (params_count p)"
    and "\<not> truthy (params_search p) \<or> SupportedQueryString (string_of (params_search p))"
  shows "\<exists>d. fst (BuildQuery qs p) = Inr d \<and>
     (string_of (params_count p) \<in> set DATE_FIELDS \<longrightarrow>
        aggs d = [(''histogram'',
                   DateHistogramAggregation (string_of (params_count p)) ''day''
                     (''_key'', ''asc'') ''yyyyMMdd'' 1)]) \<and>
     (string_of (params_count p) \<notin> set DATE_FIELDS \<longrightarrow>
        (\<forall>L. 0 < L \<and> L + 1000 \<le> 2 ^ 53 \<and>
               (params_limit p = Some (LimitNumber L)
                  \<or> params_limit p = Some (LimitString (decimal (nat L)))) \<longrightarrow>
             aggs d = [(''count'', TermsAggregation (string_of (params_count p)) (Some (L + 1000)))]))"
proof -
  obtain d where d: "fst (BuildQuery qs p) = Inr d"
    using BuildQuery_returns [OF assms(2)] by blast
  have "0 < L \<Longrightarrow> params_limit p = Some (LimitNumber L)
                      \<or> params_limit p = Some (LimitString (decimal (nat L))) \<Longrightarrow>
        parseInt (params_limit p) = Some L" for L
    by (auto simp: parseInt_string_decimal)
  then show ?thesis
    using d assms(1) by (auto simp: BuildQuery_aggs [OF d])
qed

theorem BuildQuery_count_aggregation_witness:
  "fst (BuildQuery qs_values
          (no_params\<lparr>params_count := Some ''report_date'', params_limit := Some (LimitNumber 10)\<rparr>)) =
     Inr \<lparr>query = None,
          aggs = [(''histogram'',
                   DateHistogramAggregation ''report_date'' ''day'' (''_key'', ''asc'') ''yyyyMMdd'' 1)],
          search_after = None\<rparr> \<and>
   aggs (projr (fst (BuildQuery qs_values
          (no_params\<lparr>params_count := Some ''brand_name'', params_limit := Some (LimitString ''10'')\<rparr>)))) =
     [(''count'', TermsAggregation ''brand_name'' (Some 1010))]"
proof -
  have dec: "decimal (nat 10) = ''10''"
    by (simp add: decimal.simps digit_char_def)
  have r: "''report_date'' \<in> set DATE_FIELDS" and b: "''brand_name'' \<notin> set DATE_FIELDS"
    by (simp_all add: DATE_FIELDS_def)
  obtain d1 where d1: "fst (BuildQuery qs_values
          (no_params\<lparr>params_count := Some ''report_date'', params_limit := Some (LimitNumber 10)\<rparr>)) = Inr d1"
      "aggs d1 = [(''histogram'',
                   DateHistogramAggregation ''report_date'' ''day'' (''_key'', ''asc'') ''yyyyMMdd'' 1)]"
    using BuildQuery_count_aggregation [of
        "no_params\<lparr>params_count := Some ''report_date'', params_limit := Some (LimitNumber 10)\<rparr>"
        qs_values] r
    by (auto simp: no_params_def string_of_def)
  have q1: "query d1 = None" "search_after d1 = None"
    using BuildQuery_query [OF d1(1)] BuildQuery_cursor [OF d1(1)]
    by (simp_all add: no_params_def)
  obtain d2 where d2: "fst (BuildQuery qs_values
          (no_params\<lparr>params_count := Some ''brand_name'', params_limit := Some (LimitString ''10'')\<rparr>)) = Inr d2"
    and l2: "\<forall>L. 0 < L \<and> L \<le> 9007199254739992 \<and> ''10'' = decimal (nat L) \<longrightarrow>
               aggs d2 = [(''count'', TermsAggregation ''brand_name'' (Some (L + 1000)))]"
    using BuildQuery_count_aggregation [of
        "no_params\<lparr>params_count := Some ''brand_name'', params_limit := Some (LimitString ''10'')\<rparr>"
        qs_values] b
    by (auto simp: no_params_def string_of_def)
  have a2: "aggs d2 = [(''count'', TermsAggregation ''brand_name'' (Some 1010))]"
    using l2 [rule_format, of 10] dec by simp
  show ?thesis using d1 q1 d2 a2 by (cases d1) simp
qed


section \<open>The query builder: the pagination cursor\<close>

lemma split_str_no_sep: "sep \<notin> set a \<Longrightarrow> split_str sep a = [a]"
  by (induction a) auto

lemma split_str_append:
  "sep \<notin> set a \<Longrightarrow> split_str sep (a @ sep # rest) = a # split_str sep rest"
  by (induction a) auto

lemma pair_of_well_formed:
  assumes "well_formed_pair (k, v)"
  shows "pair_key (k @ ''='' @ v) = k" and "pair_value (k @ ''='' @ v) = v"
    and "CHR '';'' \<notin> set (k @ ''='' @ v)" and "k \<noteq> []"
proof -
  have k: "CHR ''='' \<notin> set k" "CHR '';'' \<notin> set k" "CHR '';'' \<notin> set v" "k \<noteq> []"
    using assms by (simp_all add: well_formed_pair_def)
  have "takeWhile (\<lambda>c. c \<noteq> CHR ''='') (k @ CHR ''='' # v) = k"
    using k(1) by (auto simp add: takeWhile_tail)
  then show "pair_key (k @ ''='' @ v) = k" by (simp add: pair_key_def)
  have "dropWhile (\<lambda>c. c \<noteq> CHR ''='') (k @ CHR ''='' # v) = CHR ''='' # v"
    using k(1) by (auto simp add: dropWhile_append3)
  then show "pair_value (k @ ''='' @ v) = v" by (simp add: pair_value_def)
  show "CHR '';'' \<notin> set (k @ ''='' @ v)" using k by simp
  show "k \<noteq> []" by (rule k(4))
qed

lemma qs_values_single:
  "well_formed_pair (k, v) \<Longrightarrow> qs_values (k @ ''='' @ v) = [v]"
  using pair_of_well_formed [of k v]
  by (simp add: qs_values_def split_str_no_sep del: append.simps)

lemma qs_values_cons:
  "well_formed_pair (k, v) \<Longrightarrow>
   qs_values (k @ ''='' @ v @ '';'' @ rest) = v # qs_values rest"
proof -
  assume w: "well_formed_pair (k, v)"
  have "split_str CHR '';'' ((k @ ''='' @ v) @ CHR '';'' # rest) =
        (k @ ''='' @ v) # split_str CHR '';'' rest"
    using pair_of_well_formed(3) [OF w] by (rule split_str_append)
  then have "split_str CHR '';'' (k @ ''='' @ v @ '';'' @ rest) =
        (k @ ''='' @ v) # split_str CHR '';'' rest"
    by simp
  then show ?thesis
    using pair_of_well_formed(1,2,4) [OF w]
    by (simp add: qs_values_def del: append.simps)
qed

lemma qs_values_encode:
  "list_all well_formed_pair kvs \<Longrightarrow> qs_values (encode_cursor kvs) = map snd kvs"
proof (induction kvs rule: encode_cursor.induct)
  case 1
  then show ?case by (simp add: qs_values_def pair_key_def)
next
  case (2 k v)
  then show ?case by (simp add: qs_values_single del: append.simps)
next
  case (3 k v kv kvs)
  then show ?case by (simp add: qs_values_cons del: append.simps)
qed

text \<open>
  C9. For every cursor parser: a document \<^verbatim>\<open>BuildQuery\<close> returns carries, when
  \<^verbatim>\<open>search_after\<close> is given, the values the parser derives from it, and carries no
  \<^verbatim>\<open>search_after\<close> when the parameter is absent; and \<^verbatim>\<open>BuildQuery\<close> does return a
  document whenever \<^verbatim>\<open>search\<close> is absent or passes the validator. For the parser as
  the specification describes it: \<^verbatim>\<open>a=1;b=2\<close> yields the values \<^verbatim>\<open>1\<close> and \<^verbatim>\<open>2\<close>, and a
  cursor written from well-formed pairs yields their values in the order of the
  pairs.
\<close>

theorem BuildQuery_search_after:
  "(fst (BuildQuery qs p) = Inr d \<longrightarrow>
      search_after d = (if truthy (params_search_after p)
                        then Some (qs (string_of (params_search_after p))) else None)) \<and>
   (\<not> truthy (params_search p) \<or> SupportedQueryString (string_of (params_search p)) \<longrightarrow>
      (\<exists>d'. fst (BuildQuery qs p) = Inr d')) \<and>
   qs_values ''a=1;b=2'' = [''1'', ''2''] \<and>
   (list_all well_formed_pair kvs \<longrightarrow> qs_values (encode_cursor kvs) = map snd kvs)"
proof -
  have "qs_values ''a=1;b=2'' = [''1'', ''2'']"
    by (simp add: qs_values_def pair_key_def pair_value_def)
  then show ?thesis
    using BuildQuery_cursor [of qs p d] BuildQuery_returns [of p qs] qs_values_encode [of kvs]
    by blast
qed

theorem BuildQuery_search_after_witness:
  "fst (BuildQuery qs_values (no_params\<lparr>params_search_after := Some ''a=1;b=2''\<rparr>)) =
     Inr (AddSearchAfter qs_values (set_query MatchAllQuery Request)
            (no_params\<lparr>params_search_after := Some ''a=1;b=2''\<rparr>)) \<and>
   search_after (AddSearchAfter qs_values (set_query MatchAllQuery Request)
            (no_params\<lparr>params_search_after := Some ''a=1;b=2''\<rparr>)) = Some [''1'', ''2''] \<and>
   search_after (AddSearchAfter qs_values (set_query MatchAllQuery Request) no_params) = None \<and>
   qs_values (encode_cursor [(''0'', ''20200101''), (''1'', ''abc'')]) = [''20200101'', ''abc'']"
proof -
  have e: "fst (BuildQuery qs_values (no_params\<lparr>params_search_after := Some ''a=1;b=2''\<rparr>)) =
     Inr (AddSearchAfter qs_values (set_query MatchAllQuery Request)
            (no_params\<lparr>params_search_after := Some ''a=1;b=2''\<rparr>))"
    and n: "fst (BuildQuery qs_values no_params) =
     Inr (AddSearchAfter qs_values (set_query MatchAllQuery Request) no_params)"
    by (simp_all add: BuildQuery_def no_params_def)
  show ?thesis
    using e BuildQuery_search_after [of qs_values "no_params\<lparr>params_search_after := Some ''a=1;b=2''\<rparr>"
        "AddSearchAfter qs_values (set_query MatchAllQuery Request)
            (no_params\<lparr>params_search_after := Some ''a=1;b=2''\<rparr>)"
        "[(''0'', ''20200101''), (''1'', ''abc'')]"]
      BuildQuery_search_after [of qs_values no_params
        "AddSearchAfter qs_values (set_query MatchAllQuery Request) no_params" "[]"] n
    by (simp add: no_params_def string_of_def well_formed_pair_def)
qed

section \<open>The deprecated-clause rewriter: what it replaces and what it keeps\<close>

lemma first_of_simps [simp]:
  "first_of [] = None" "first_of (x # xs) = Some x"
  by (simp_all add: first_of_def)

lemma first_of_append:
  "first_of (xs @ ys) = (case first_of xs of Some y \<Rightarrow> Some y | None \<Rightarrow> first_of ys)"
  by (cases xs) simp_all

lemma first_of_map: "first_of (map g xs) = map_option g (first_of xs)"
  by (cases xs) simp_all

lemma first_of_concat_map:
  "first_of (concat (map f (x # xs))) =
     (case first_of (f x) of Some y \<Rightarrow> Some y | None \<Rightarrow> first_of (concat (map f xs)))"
  by (simp add: first_of_append)

lemma first_of_concat_map_total:
  assumes "\<And>x. f x \<noteq> []"
  shows "first_of (concat (map f xs)) = Option.bind (first_of xs) (\<lambda>x. first_of (f x))"
proof (cases xs)
  case Nil
  then show ?thesis by simp
next
  case (Cons x xs')
  obtain y ys where "f x = y # ys" using assms [of x] by (cases "f x") auto
  then show ?thesis using Cons by simp
qed

lemma case_list_first_of:
  "(case xs of [] \<Rightarrow> a | m # _ \<Rightarrow> b m) = (case first_of xs of None \<Rightarrow> a | Some m \<Rightarrow> b m)"
  by (cases xs) simp_all

lemma first_of_greedy_runs:
  "first_of (greedy_runs items pre t cap) =
     (if takeWhile (in_class items) t = [] then None
      else Some (pre @ takeWhile (in_class items) t, dropWhile (in_class items) t, cap))"
proof (induction t arbitrary: pre)
  case Nil
  then show ?case by simp
next
  case (Cons c cs)
  show ?case
  proof (cases "in_class items c")
    case False
    then show ?thesis by simp
  next
    case True
    then show ?thesis
      by (auto simp: first_of_append Cons.IH) (metis takeWhile_dropWhile_id append_Nil)
  qed
qed


lemma in_path_class: "in_class [WordChar, Single CHR ''.''] = is_path_char"
  by (rule ext) (auto simp: in_class_def is_path_char_def)

lemma rmatch_Opt_Lit:
  "rmatch (Opt (Lit l)) (p, t, c) =
     (if is_prefix l t then [(p @ l, drop (length l) t, c), (p, t, c)] else [(p, t, c)])"
  by simp

lemma first_of_run_quote:
  \<open>first_of (rmatch (Seq (Plus (Class [WordChar, Single CHR ''.''])) (Opt (Lit ''"''))) (p, t, c)) =
     (if takeWhile is_path_char t = [] then None
      else Some (if is_prefix ''"'' (dropWhile is_path_char t)
                 then (p @ takeWhile is_path_char t @ ''"'', drop 1 (dropWhile is_path_char t), c)
                 else (p @ takeWhile is_path_char t, dropWhile is_path_char t, c)))\<close>
proof -
  have "rmatch (Seq (Plus (Class [WordChar, Single CHR ''.''])) (Opt (Lit [CHR 0x22]))) (p, t, c) =
        concat (map (rmatch (Opt (Lit [CHR 0x22])))
          (rmatch (Plus (Class [WordChar, Single CHR ''.''])) (p, t, c)))"
    by (simp del: rmatch.simps(5,6))
  also have "\<dots> = concat (map (rmatch (Opt (Lit [CHR 0x22])))
          (greedy_runs [WordChar, Single CHR ''.''] p t c))"
    by (simp only: rmatch_Plus_Class)
  finally have e: "rmatch (Seq (Plus (Class [WordChar, Single CHR ''.''])) (Opt (Lit [CHR 0x22]))) (p, t, c) =
      concat (map (rmatch (Opt (Lit [CHR 0x22]))) (greedy_runs [WordChar, Single CHR ''.''] p t c))" .
  have ne: "rmatch (Opt (Lit [CHR 0x22])) x \<noteq> []" for x
    by simp
  show ?thesis
    unfolding e first_of_concat_map_total [of "rmatch (Opt (Lit [CHR 0x22]))", OF ne]
      first_of_greedy_runs in_path_class
    by (simp add: rmatch_Opt_Lit del: rmatch.simps)
qed


lemma quote_not_path: \<open>\<not> is_path_char (CHR ''"'')\<close>
  by (simp add: is_path_char_def is_lower_def is_upper_def is_digit_def)

lemma first_of_opt_quote_seq:
  \<open>first_of (rmatch (Seq (Opt (Lit ''"'')) r) (p, t, c)) =
     (case (if is_prefix ''"'' t then first_of (rmatch r (p @ ''"'', drop 1 t, c)) else None) of
        Some y \<Rightarrow> Some y
      | None \<Rightarrow> first_of (rmatch r (p, t, c)))\<close>
proof -
  have "rmatch (Seq (Opt (Lit [CHR 0x22])) r) (p, t, c) =
        concat (map (rmatch r) (rmatch (Opt (Lit [CHR 0x22])) (p, t, c)))"
    by (rule rmatch.simps(7))
  then have e: "rmatch (Seq (Opt (Lit [CHR 0x22])) r) (p, t, c) =
        concat (map (rmatch r)
          (if is_prefix [CHR 0x22] t then [(p @ [CHR 0x22], drop 1 t, c), (p, t, c)]
           else [(p, t, c)]))"
    by (simp only: rmatch_Opt_Lit) simp
  show ?thesis
    unfolding e by (simp add: first_of_append split: option.splits)
qed

lemma first_of_field_path:
  \<open>first_of (rmatch (Seq (Opt (Lit ''"''))
       (Seq (Plus (Class [WordChar, Single CHR ''.''])) (Opt (Lit ''"'')))) (p, t, c)) =
     map_option (\<lambda>(g, r). (p @ g, r, c)) (field_path_at t)\<close>
proof (cases \<open>is_prefix ''"'' t\<close>)
  case True
  then obtain t' where t: "t = CHR 0x22 # t'"
    by (cases t) (auto simp: is_prefix_def)
  have nq: "takeWhile is_path_char t = []"
    unfolding t using quote_not_path by simp
  show ?thesis
    unfolding first_of_opt_quote_seq first_of_run_quote
    using True nq by (simp add: field_path_at_def Let_def t)
next
  case False
  then show ?thesis
    unfolding first_of_opt_quote_seq first_of_run_quote
    by (simp add: field_path_at_def Let_def)
qed

lemma first_of_MISSING_RE:
  "first_of (rmatch MISSING_RE (pre, rest, cap)) =
     (if is_prefix MISSING_TOKEN rest
      then map_option (\<lambda>(g, r). (pre @ MISSING_TOKEN @ g, r, Some g))
             (field_path_at (drop (length MISSING_TOKEN) rest))
      else None)"
proof -
  let ?inner = "Seq (Opt (Lit [CHR 0x22]))
       (Seq (Plus (Class [WordChar, Single CHR ''.''])) (Opt (Lit [CHR 0x22])))"
  have g: "first_of (rmatch (Group ?inner) (p, t, c)) =
        map_option (\<lambda>(g, r). (p @ g, r, Some g)) (field_path_at t)" for p t c
  proof -
    have "rmatch (Group ?inner) (p, t, c) =
          map (\<lambda>st'. (fst st', fst (snd st'), Some (drop (length p) (fst st'))))
            (rmatch ?inner (p, t, c))"
      by (simp del: rmatch.simps(5,6,7))
    then show ?thesis
      by (simp only: first_of_map first_of_field_path)
         (cases "field_path_at t"; simp split: prod.splits)
  qed
  have "rmatch MISSING_RE (pre, rest, cap) =
        concat (map (rmatch (Group ?inner)) (rmatch (Lit MISSING_TOKEN) (pre, rest, cap)))"
    unfolding MISSING_RE_def MISSING_TOKEN_def by (rule rmatch.simps(7))
  then show ?thesis
    by (simp add: g first_of_append del: rmatch.simps(5,6,7,8))
qed


lemma opt_prefix_split:
  "(if is_prefix q t then q else []) @ drop (length (if is_prefix q t then q else [])) t = t"
  by (simp add: is_prefix_def) (metis append_take_drop_id)

lemma field_path_at_split:
  assumes "field_path_at t = Some (g, r)"
  shows "t = g @ r" and "g \<noteq> []"
proof -
  define q1 where "q1 = (if is_prefix [CHR 0x22] t then [CHR 0x22] else [])"
  define t1 where "t1 = drop (length q1) t"
  define w where "w = takeWhile is_path_char t1"
  define t2 where "t2 = dropWhile is_path_char t1"
  define q2 where "q2 = (if is_prefix [CHR 0x22] t2 then [CHR 0x22] else [])"
  have "field_path_at t = (if w = [] then None else Some (q1 @ w @ q2, drop (length q2) t2))"
    unfolding field_path_at_def Let_def q1_def t1_def w_def t2_def q2_def ..
  with assms have w: "w \<noteq> []" and g: "g = q1 @ w @ q2" and r: "r = drop (length q2) t2"
    by (simp_all split: if_splits)
  have a: "t = q1 @ t1"
    unfolding t1_def q1_def by (rule opt_prefix_split [symmetric])
  have b: "t1 = w @ t2"
    unfolding w_def t2_def by simp
  have c: "t2 = q2 @ r"
    unfolding r q2_def by (rule opt_prefix_split [symmetric])
  show "t = g @ r"
    unfolding g by (simp add: a b c [symmetric])
  show "g \<noteq> []"
    using w unfolding g by simp
qed

lemma expand_MISSING_REPLACEMENT:
  "expand MISSING_REPLACEMENT (p, r, Some g) = ''(NOT (_exists_:'' @ g @ ''))''"
  by (simp add: expand_def MISSING_REPLACEMENT_def)

lemma replace_missing_Nil: "replace_all MISSING_RE MISSING_REPLACEMENT pre [] = []"
proof -
  have "first_of (rmatch MISSING_RE (pre, [], None)) = None"
    unfolding first_of_MISSING_RE by (simp add: is_prefix_def MISSING_TOKEN_def)
  then show ?thesis
    by (subst replace_all.simps) (simp add: case_list_first_of del: rmatch.simps)
qed

lemma replace_missing_skip:
  assumes "\<not> missing_at (c # cs)"
  shows "replace_all MISSING_RE MISSING_REPLACEMENT pre (c # cs) =
         c # replace_all MISSING_RE MISSING_REPLACEMENT (pre @ [c]) cs"
proof -
  have "is_prefix MISSING_TOKEN (c # cs) \<Longrightarrow>
        field_path_at (drop (length MISSING_TOKEN) (c # cs)) = None"
    using assms unfolding missing_at_def by blast
  then have "first_of (rmatch MISSING_RE (pre, c # cs, None)) = None"
    unfolding first_of_MISSING_RE by (cases "is_prefix MISSING_TOKEN (c # cs)") simp_all
  then show ?thesis
    by (subst replace_all.simps) (simp add: case_list_first_of del: rmatch.simps)
qed

lemma replace_missing_hit:
  assumes "is_prefix MISSING_TOKEN s"
    and "field_path_at (drop (length MISSING_TOKEN) s) = Some (g, r)"
  shows "replace_all MISSING_RE MISSING_REPLACEMENT pre s =
         ''(NOT (_exists_:'' @ g @ ''))'' @
         replace_all MISSING_RE MISSING_REPLACEMENT (pre @ MISSING_TOKEN @ g) r"
proof -
  have f: "first_of (rmatch MISSING_RE (pre, s, None)) = Some (pre @ MISSING_TOKEN @ g, r, Some g)"
    unfolding first_of_MISSING_RE using assms by simp
  have "s = MISSING_TOKEN @ drop (length MISSING_TOKEN) s"
    using assms(1) by (simp add: is_prefix_def) (metis append_take_drop_id)
  then have "s = MISSING_TOKEN @ g @ r"
    using field_path_at_split(1) [OF assms(2)] by simp
  then have "length s = length MISSING_TOKEN + length g + length r"
    by (metis length_append add.assoc)
  then have l: "length r < length s"
    using field_path_at_split(2) [OF assms(2)] by simp
  show ?thesis
    by (subst replace_all.simps)
       (simp add: case_list_first_of f l expand_MISSING_REPLACEMENT del: rmatch.simps)
qed


lemma replace_missing_pre:
  "replace_all MISSING_RE MISSING_REPLACEMENT pre s =
   replace_all MISSING_RE MISSING_REPLACEMENT pre' s"
proof (induction "length s" arbitrary: s pre pre' rule: less_induct)
  case less
  show ?case
  proof (cases s)
    case Nil
    then show ?thesis by (simp add: replace_missing_Nil)
  next
    case (Cons c cs)
    show ?thesis
    proof (cases "missing_at s")
      case False
      have "length cs < length s" using Cons by simp
      from less [OF this, of "pre @ [c]" "pre' @ [c]"] show ?thesis
        using False unfolding Cons by (simp add: replace_missing_skip)
    next
      case True
      then obtain g r where p: "is_prefix MISSING_TOKEN s"
        and f: "field_path_at (drop (length MISSING_TOKEN) s) = Some (g, r)"
        by (auto simp: missing_at_def)
      have "s = MISSING_TOKEN @ drop (length MISSING_TOKEN) s"
        using p by (simp add: is_prefix_def) (metis append_take_drop_id)
      then have "length s = length MISSING_TOKEN + length (g @ r)"
        using field_path_at_split(1) [OF f] by (metis length_append)
      then have "length r < length s"
        using field_path_at_split(2) [OF f] by simp
      from less [OF this, of "pre @ MISSING_TOKEN @ g" "pre' @ MISSING_TOKEN @ g"] show ?thesis
        by (simp add: replace_missing_hit [OF p f])
    qed
  qed
qed

lemma HandleDeprecatedClauses_Nil: "HandleDeprecatedClauses [] = []"
  by (simp add: HandleDeprecatedClauses_def replace_missing_Nil)

lemma HandleDeprecatedClauses_skip:
  "\<not> missing_at (c # cs) \<Longrightarrow> HandleDeprecatedClauses (c # cs) = c # HandleDeprecatedClauses cs"
  unfolding HandleDeprecatedClauses_def
  using replace_missing_pre [of "[c]" cs "[]"] by (simp add: replace_missing_skip)

lemma HandleDeprecatedClauses_hit:
  assumes "field_path_at (fp @ post) = Some (fp, post)"
  shows "HandleDeprecatedClauses (MISSING_TOKEN @ fp @ post) =
         ''(NOT (_exists_:'' @ fp @ ''))'' @ HandleDeprecatedClauses post"
proof -
  have p: "is_prefix MISSING_TOKEN (MISSING_TOKEN @ fp @ post)"
    by (simp add: is_prefix_def)
  have f: "field_path_at (drop (length MISSING_TOKEN) (MISSING_TOKEN @ fp @ post)) = Some (fp, post)"
    using assms by simp
  show ?thesis
    unfolding HandleDeprecatedClauses_def replace_missing_hit [OF p f]
    using replace_missing_pre [of "[] @ MISSING_TOKEN @ fp" post "[]"] by simp
qed

lemma HandleDeprecatedClauses_copy:
  "operator_free pre rest \<Longrightarrow>
   HandleDeprecatedClauses (pre @ rest) = pre @ HandleDeprecatedClauses rest"
  by (induction pre) (simp_all add: HandleDeprecatedClauses_skip)


lemmas path_eval = missing_at_def MISSING_TOKEN_def is_prefix_def field_path_at_def Let_def
  is_path_char_def is_lower_def is_upper_def is_digit_def

text \<open>
  C10. \<^verbatim>\<open>HandleDeprecatedClauses\<close> turns \<^verbatim>\<open>_missing_:foo\<close> into \<^verbatim>\<open>(NOT (_exists_:foo))\<close> and
  \<^verbatim>\<open>_missing_:"a.b"\<close> into \<^verbatim>\<open>(NOT (_exists_:"a.b"))\<close>. In general, where the operator is
  followed by a field path (an optional quotation mark, the longest run of word
  characters and dots, an optional quotation mark), operator and path are replaced by
  \<^verbatim>\<open>(NOT (_exists_:\<close>, the path as it stands, and \<^verbatim>\<open>))\<close>, and the text behind the path is
  rewritten in the same way. Text within which no operator with a field path starts
  is copied as it is, and rewriting goes on behind it; so a text with no such
  occurrence, also one where the token is followed by something else than a field
  path, is returned unchanged. Occurrences are found from the left and do not
  overlap, as a replacement with a global pattern finds them.
\<close>

theorem HandleDeprecatedClauses_rewrite:
  \<open>HandleDeprecatedClauses ''_missing_:foo'' = ''(NOT (_exists_:foo))'' \<and>
   HandleDeprecatedClauses ''_missing_:"a.b"'' = ''(NOT (_exists_:"a.b"))'' \<and>
   (field_path_at (fp @ post) = Some (fp, post) \<longrightarrow>
      HandleDeprecatedClauses (MISSING_TOKEN @ fp @ post) =
        ''(NOT (_exists_:'' @ fp @ ''))'' @ HandleDeprecatedClauses post) \<and>
   (operator_free pre rest \<longrightarrow>
      HandleDeprecatedClauses (pre @ rest) = pre @ HandleDeprecatedClauses rest) \<and>
   (operator_free s [] \<longrightarrow> HandleDeprecatedClauses s = s)\<close>
proof (intro conjI impI)
  have "field_path_at (''foo'' @ []) = Some (''foo'', [])"
    by (simp add: path_eval)
  from HandleDeprecatedClauses_hit [OF this]
  show "HandleDeprecatedClauses ''_missing_:foo'' = ''(NOT (_exists_:foo))''"
    by (simp add: MISSING_TOKEN_def HandleDeprecatedClauses_Nil)
next
  have "field_path_at ([CHR 0x22, CHR ''a'', CHR ''.'', CHR ''b'', CHR 0x22] @ []) =
        Some ([CHR 0x22, CHR ''a'', CHR ''.'', CHR ''b'', CHR 0x22], [])"
    by (simp add: path_eval)
  from HandleDeprecatedClauses_hit [OF this]
  show \<open>HandleDeprecatedClauses ''_missing_:"a.b"'' = ''(NOT (_exists_:"a.b"))''\<close>
    by (simp add: MISSING_TOKEN_def HandleDeprecatedClauses_Nil)
next
  assume "field_path_at (fp @ post) = Some (fp, post)"
  then show "HandleDeprecatedClauses (MISSING_TOKEN @ fp @ post) =
        ''(NOT (_exists_:'' @ fp @ ''))'' @ HandleDeprecatedClauses post"
    by (rule HandleDeprecatedClauses_hit)
next
  assume "operator_free pre rest"
  then show "HandleDeprecatedClauses (pre @ rest) = pre @ HandleDeprecatedClauses rest"
    by (rule HandleDeprecatedClauses_copy)
next
  assume "operator_free s []"
  from HandleDeprecatedClauses_copy [OF this]
  show "HandleDeprecatedClauses s = s"
    by (simp add: HandleDeprecatedClauses_Nil)
qed

theorem HandleDeprecatedClauses_rewrite_witness:
  \<open>HandleDeprecatedClauses ''a AND _missing_:"a.b" OR _missing_: x'' =
     ''a AND (NOT (_exists_:"a.b")) OR _missing_: x''\<close>
proof -
  let ?fp = "[CHR 0x22, CHR ''a'', CHR ''.'', CHR ''b'', CHR 0x22]"
  have f: "field_path_at (?fp @ '' OR _missing_: x'') = Some (?fp, '' OR _missing_: x'')"
    by (simp add: path_eval)
  have o1: "operator_free ''a AND '' (MISSING_TOKEN @ ?fp @ '' OR _missing_: x'')"
    by (simp add: path_eval)
  have o2: "operator_free '' OR _missing_: x'' []"
    by (simp add: path_eval)
  show ?thesis
    using HandleDeprecatedClauses_rewrite [of ?fp "'' OR _missing_: x''" "''a AND ''"
        "MISSING_TOKEN @ ?fp @ '' OR _missing_: x''" "'' OR _missing_: x''"] f o1 o2
    by (simp add: MISSING_TOKEN_def)
qed

end
